theory Spec2Isabelle
  imports Complex_Main "HOL-Library.Word"
begin

section \<open>Shallow embedding of the combined analyzer service (Single\_Prog\_ALL.py)\<close>

text \<open>
  Conventions of the embedding.
  \<^item> A Python \<open>float\<close> is a \<^typ>\<open>real\<close>: the control flow and the formulas of the
    program are kept, rounding and the special values (NaN, infinities) are not modelled.
  \<^item> A value that may be \<open>None\<close> is an \<open>option\<close>.
  \<^item> A Python exception is a value of \<open>py_error\<close>; a function that may raise returns
    \<open>py_error + 'a\<close> with \<open>Inl\<close> for the exception.
  \<^item> What a device, the clock or the SQL driver answers is an argument of the model
    (an observation), since these are outside the program.
  \<^item> A 16-bit Modbus register is a \<^typ>\<open>16 word\<close>, a byte an \<^typ>\<open>8 word\<close>.
\<close>

datatype py_error = KeyError | ZeroDivisionError | TypeError | ValueError | IndexError

type_synonym register = "16 word"
type_synonym byte = "8 word"

subsection \<open>Float decoding\<close>

text \<open>\<open>struct.pack(">H", w)\<close>: the two bytes of a register, high byte first.\<close>

definition pack_H :: "register \<Rightarrow> byte list" where
  "pack_H w = [ucast (drop_bit 8 w), ucast w]"

text \<open>
  \<open>decode_float(w1, w2, order)\<close>. The final \<open>struct.unpack(">f", data)[0]\<close> is the
  IEEE-754 reading of the four bytes; it is the parameter \<open>unpack_f\<close>.
\<close>

definition decode_float :: "(byte list \<Rightarrow> real) \<Rightarrow> register \<Rightarrow> register \<Rightarrow> string \<Rightarrow> real" where
  "decode_float unpack_f w1 w2 order =
     (let b1 = pack_H w1; b2 = pack_H w2;
          data = (if order = ''ABCD'' then b1 @ b2
                  else if order = ''CDAB'' then b2 @ b1
                  else if order = ''BADC'' then rev b1 @ rev b2
                  else if order = ''DCBA'' then rev b2 @ rev b1
                  else b1 @ b2)
      in unpack_f data)"

subsection \<open>Calibration evaluator\<close>

text \<open>
  A range map entry is the tuple
  \<open>(measured_input_reg, measured_order, expected_reg, min_reg, max_reg, factor)\<close>.
\<close>

type_synonym range_entry = "int \<times> string \<times> int \<times> int \<times> int \<times> int"
type_synonym range_map = "string \<rightharpoonup> range_entry"

definition AN1_RANGE_MAP :: range_map where
  "AN1_RANGE_MAP =
     [''N2O'' \<mapsto> (0, ''ABCD'', 124, 100, 102, 100),
      ''NO'' \<mapsto> (2, ''CDAB'', 126, 104, 106, 101),
      ''O2'' \<mapsto> (6, ''ABCD'', 128, 108, 110, 102)]"

definition AN2_RANGE_MAP :: range_map where
  "AN2_RANGE_MAP =
     [''N2O'' \<mapsto> (0, ''ABCD'', 130, 114, 116, 100),
      ''NO'' \<mapsto> (2, ''CDAB'', 132, 118, 120, 101)]"

text \<open>
  \<open>read_holding_float_cached(reg, order)\<close> goes through the range cache and the shared
  Modbus client of the range device, so it reads and changes state. In the evaluator it is
  the parameter \<open>fetch\<close>, a state-passing function on a state \<open>'s\<close>.
\<close>

type_synonym 's fetch = "int \<Rightarrow> string \<Rightarrow> 's \<Rightarrow> real option \<times> 's"

text \<open>\<open>f(reg, "CDAB") if reg else None\<close>\<close>

definition fetch_if :: "'s fetch \<Rightarrow> int \<Rightarrow> 's \<Rightarrow> real option \<times> 's" where
  "fetch_if fetch reg s = (if reg \<noteq> 0 then fetch reg ''CDAB'' s else (None, s))"

definition read_expected_min_max ::
  "'s fetch \<Rightarrow> range_map \<Rightarrow> string \<Rightarrow> 's \<Rightarrow> py_error + ((real option \<times> real option \<times> real option) \<times> 's)" where
  "read_expected_min_max fetch range_map tag s =
     (case range_map tag of
        None \<Rightarrow> Inl KeyError
      | Some (_, _, exp_reg, min_reg, max_reg, _) \<Rightarrow>
          (let (expected, s1) = fetch_if fetch exp_reg s;
               (mn, s2) = fetch_if fetch min_reg s1;
               (mx, s3) = fetch_if fetch max_reg s2
           in Inr ((expected, mn, mx), s3)))"

text \<open>Python's float division raises \<open>ZeroDivisionError\<close> on a zero divisor.\<close>

definition py_div :: "real \<Rightarrow> real \<Rightarrow> py_error + real" where
  "py_div a b = (if b = 0 then Inl ZeroDivisionError else Inr (a / b))"

text \<open>
  The last three statements of \<open>evaluate\<close>: error, accuracy and status from the measured
  value and the references. \<open>val - None\<close> raises \<open>TypeError\<close>.
\<close>

type_synonym eval_result = "real option \<times> real option \<times> real option \<times> string"

definition evaluate_tail ::
  "int \<Rightarrow> real \<Rightarrow> real option \<Rightarrow> real option \<Rightarrow> real option \<Rightarrow> py_error + eval_result" where
  "evaluate_tail factor val expected min_r max_r =
     (case expected of
        None \<Rightarrow> Inl TypeError
      | Some e \<Rightarrow>
          (let error = val - e in
           case (if expected \<noteq> None \<and> e \<noteq> 0
                 then (case py_div \<bar>error\<bar> e of
                         Inl x \<Rightarrow> Inl x
                       | Inr q \<Rightarrow> Inr (q * real_of_int factor))
                 else Inr (\<bar>val\<bar> * real_of_int factor)) of
             Inl x \<Rightarrow> Inl x
           | Inr accuracy \<Rightarrow>
               (let status =
                      (if min_r \<noteq> None \<and> max_r \<noteq> None \<and> the min_r \<le> val \<and> val \<le> the max_r
                       then ''CAL OK'' else ''OUT OF CONTROL'')
                in Inr (Some e, Some error, Some accuracy, status))))"

definition evaluate ::
  "'s fetch \<Rightarrow> string \<Rightarrow> real \<Rightarrow> string \<Rightarrow> range_map \<Rightarrow> 's \<Rightarrow> py_error + (eval_result \<times> 's)" where
  "evaluate fetch tag val cal_name range_map s =
     (case range_map tag of
        None \<Rightarrow> Inl KeyError
      | Some (_, _, _, _, _, factor) \<Rightarrow>
          if cal_name = ''N2O ZERO''
          then (case evaluate_tail factor val (Some 0) (Some (- 0.2)) (Some 0.2) of
                  Inl x \<Rightarrow> Inl x
                | Inr r \<Rightarrow> Inr (r, s))
          else (case read_expected_min_max fetch range_map tag s of
                  Inl x \<Rightarrow> Inl x
                | Inr ((expected, min_r, max_r), s') \<Rightarrow>
                    if expected = None \<or> min_r = None \<or> max_r = None
                    then Inr ((None, None, None, ''READ ERROR''), s')
                    else (case evaluate_tail factor val expected min_r max_r of
                            Inl x \<Rightarrow> Inl x
                          | Inr r \<Rightarrow> Inr (r, s'))))"

subsection \<open>Shared Modbus client (class SharedModbus)\<close>

text \<open>
  The state of one \<open>SharedModbus\<close> object. \<open>client\<close> is \<open>None\<close> while \<open>self.client\<close>
  is \<open>None\<close>, and \<open>Some c\<close> when a client object exists whose \<open>connected\<close> attribute is
  \<open>c\<close>. \<open>connects\<close> counts the calls of \<open>_connect\<close>: it records the effect "a connection
  was attempted" and is not a field of the class.
\<close>

record shared_modbus =
  client :: "bool option"
  last_fail :: real
  connects :: nat

text \<open>
  What the library does in \<open>_connect\<close>: \<open>connect()\<close> returns true or false or raises, or
  the constructor of the client raises.
\<close>

datatype connect_outcome = ConnectTrue | ConnectFalse | ConnectRaises | ClientRaises

text \<open>
  What a request does: it returns a response with values, a response for which
  \<open>isError()\<close> holds, or it raises.
\<close>

datatype 'a reply = Reply 'a | ErrorReply | RequestRaises

text \<open>
  The observations of one read call: the clock read in \<open>_ensure\<close>, the outcome of a
  connection attempt if one is made, the device's answer to a request at an address for a
  count, whether the client reports itself connected after the request, and the clock read
  in the exception handler.
\<close>

record 'a mb_obs =
  t_ensure :: real
  conn :: connect_outcome
  answer :: "int \<Rightarrow> int \<Rightarrow> 'a reply"
  still_connected :: bool
  t_except :: real

definition SharedModbus :: shared_modbus where
  "SharedModbus = \<lparr>client = None, last_fail = 0, connects = 0\<rparr>"

text \<open>
  \<open>_connect\<close>: an existing client is closed first; every exception is caught and gives
  \<open>False\<close>.
\<close>

definition mb_connect :: "connect_outcome \<Rightarrow> shared_modbus \<Rightarrow> bool \<times> shared_modbus" where
  "mb_connect outcome st =
     (let st1 = st\<lparr>client := map_option (\<lambda>_. False) (client st), connects := Suc (connects st)\<rparr>
      in case outcome of
           ClientRaises \<Rightarrow> (False, st1)
         | ConnectTrue \<Rightarrow> (True, st1\<lparr>client := Some True\<rparr>)
         | ConnectFalse \<Rightarrow> (False, st1\<lparr>client := Some False\<rparr>)
         | ConnectRaises \<Rightarrow> (False, st1\<lparr>client := Some False\<rparr>))"

text \<open>\<open>_ensure\<close>, with the clock reading \<open>now\<close>.\<close>

definition mb_ensure :: "real \<Rightarrow> connect_outcome \<Rightarrow> shared_modbus \<Rightarrow> bool \<times> shared_modbus" where
  "mb_ensure now outcome st =
     (if client st = Some True then (True, st)
      else if now - last_fail st < 1.5 then (False, st)
      else (let (ok, st') = mb_connect outcome st
            in if \<not> ok then (ok, st'\<lparr>last_fail := now\<rparr>) else (ok, st')))"

text \<open>
  The common body of \<open>read_discrete\<close>, \<open>read_input_regs\<close> and \<open>read_holding_regs\<close>, which
  differ in the request they send and in the field of the response they return.
\<close>

definition mb_read :: "'a mb_obs \<Rightarrow> int \<Rightarrow> int \<Rightarrow> shared_modbus \<Rightarrow> 'a option \<times> shared_modbus" where
  "mb_read obs address count st =
     (let (ok, st1) = mb_ensure (t_ensure obs) (conn obs) st in
      if \<not> ok then (None, st1)
      else (let st2 = st1\<lparr>client := Some (still_connected obs)\<rparr> in
            case answer obs address count of
              Reply v \<Rightarrow> (Some v, st2)
            | ErrorReply \<Rightarrow> (None, st2)
            | RequestRaises \<Rightarrow> (None, st2\<lparr>last_fail := t_except obs\<rparr>)))"

definition read_discrete :: "bool list mb_obs \<Rightarrow> int \<Rightarrow> int \<Rightarrow> shared_modbus \<Rightarrow> bool list option \<times> shared_modbus" where
  "read_discrete obs address count st = mb_read obs address count st"

definition read_input_regs :: "register list mb_obs \<Rightarrow> int \<Rightarrow> int \<Rightarrow> shared_modbus \<Rightarrow> register list option \<times> shared_modbus" where
  "read_input_regs obs address count st = mb_read obs address count st"

definition read_holding_regs :: "register list mb_obs \<Rightarrow> int \<Rightarrow> int \<Rightarrow> shared_modbus \<Rightarrow> register list option \<times> shared_modbus" where
  "read_holding_regs obs address count st = mb_read obs address count st"

subsection \<open>Range cache (class RangeCache)\<close>

definition RANGE_ADDR_OFFSET :: int where
  "RANGE_ADDR_OFFSET = 0"

text \<open>The dictionary \<open>self.cache\<close>: key \<open>(addr, order)\<close>, entry \<open>(ts, value)\<close>.\<close>

type_synonym range_cache = "(int \<times> string) \<rightharpoonup> (real \<times> real)"

text \<open>
  \<open>get_float_holding(reg, order)\<close> for a cache with freshness window \<open>ttl\<close>, at clock
  reading \<open>now\<close>. The read through the shared client of the range device,
  \<open>MB_RANGE.read_holding_regs(addr, 2)\<close>, is the state-passing parameter \<open>rd\<close> on the
  state \<open>'m\<close> of that client.
\<close>

definition get_float_holding ::
  "(byte list \<Rightarrow> real) \<Rightarrow> real \<Rightarrow> (int \<Rightarrow> int \<Rightarrow> 'm \<Rightarrow> register list option \<times> 'm) \<Rightarrow> real \<Rightarrow>
     int \<Rightarrow> string \<Rightarrow> range_cache \<times> 'm \<Rightarrow> real option \<times> range_cache \<times> 'm" where
  "get_float_holding unpack_f ttl rd now reg order cm =
     (let (cache, m) = cm;
          addr = (if RANGE_ADDR_OFFSET \<noteq> 0 then reg - RANGE_ADDR_OFFSET else reg);
          key = (addr, order);
          hit = (case cache key of
                   None \<Rightarrow> None
                 | Some (ts, val) \<Rightarrow> if now - ts \<le> ttl then Some val else None)
      in case hit of
           Some val \<Rightarrow> (Some val, cache, m)
         | None \<Rightarrow>
             (let (regs, m') = rd addr 2 m in
              case regs of
                None \<Rightarrow> (None, cache, m')
              | Some rs \<Rightarrow>
                  if rs = [] \<or> length rs < 2 then (None, cache, m')
                  else (let val = decode_float unpack_f (rs ! 0) (rs ! 1) order
                        in (Some val, cache(key \<mapsto> (now, val)), m'))))"

text \<open>
  \<open>read_holding_float_cached(reg, order)\<close>: the lookup in \<open>RANGE_CACHE\<close>, the cache with a
  window of 5 seconds over the shared client \<open>MB_RANGE\<close>. With the clock reading and the
  observations of the client fixed, it is a \<open>fetch\<close> on the state of cache and client.
\<close>

definition read_holding_float_cached ::
  "(byte list \<Rightarrow> real) \<Rightarrow> real \<Rightarrow> register list mb_obs \<Rightarrow> int \<Rightarrow> string
     \<Rightarrow> range_cache \<times> shared_modbus \<Rightarrow> real option \<times> range_cache \<times> shared_modbus" where
  "read_holding_float_cached unpack_f now obs reg order cm =
     get_float_holding unpack_f 5 (read_holding_regs obs) now reg order cm"

subsection \<open>Common helpers\<close>

definition FLOW_STOP_THRESHOLD :: real where
  "FLOW_STOP_THRESHOLD = 100"

definition FLOW_REGS :: "(nat \<times> string) list" where
  "FLOW_REGS = [(1, ''ABCD'')]"

definition AN1_LIVE_REGS :: "(nat \<times> string) list" where
  "AN1_LIVE_REGS = [(0, ''ABCD''), (2, ''CDAB''), (6, ''ABCD'')]"

definition AN2_LIVE_REGS :: "(nat \<times> string) list" where
  "AN2_LIVE_REGS = [(0, ''ABCD''), (2, ''CDAB'')]"

definition plant_status :: "real option \<Rightarrow> string" where
  "plant_status flow_val =
     (if flow_val \<noteq> None \<and> the flow_val \<ge> FLOW_STOP_THRESHOLD then ''PLANT RUNNING'' else ''PLANT STOP'')"

text \<open>
  \<open>read_block_input(mb, reg_map)\<close>; \<open>regs\<close> is what \<open>mb.read_input_regs(0, max_reg)\<close>
  returned. \<open>max\<close> of an empty register map raises \<open>ValueError\<close>; a register pair outside
  the block read raises \<open>IndexError\<close>, which the loop replaces by \<open>0.0\<close>. The addresses of a
  register map index the block, so they are naturals.
\<close>

definition read_block_input ::
  "(byte list \<Rightarrow> real) \<Rightarrow> register list option \<Rightarrow> (nat \<times> string) list \<Rightarrow> py_error + real list option" where
  "read_block_input unpack_f regs reg_map =
     (if reg_map = [] then Inl ValueError
      else case regs of
             None \<Rightarrow> Inr None
           | Some rs \<Rightarrow>
               if rs = [] then Inr None
               else Inr (Some (map (\<lambda>(addr, fmt).
                                      if addr + 1 < length rs
                                      then decode_float unpack_f (rs ! addr) (rs ! (addr + 1)) fmt
                                      else 0) reg_map)))"

text \<open>\<open>read_flow()\<close>; \<open>regs\<close> is what the read of the flow device returned.\<close>

definition read_flow :: "(byte list \<Rightarrow> real) \<Rightarrow> register list option \<Rightarrow> py_error + real" where
  "read_flow unpack_f regs =
     (case read_block_input unpack_f regs FLOW_REGS of
        Inl e \<Rightarrow> Inl e
      | Inr None \<Rightarrow> Inr 0
      | Inr (Some vals) \<Rightarrow> if vals = [] then Inr 0 else Inr (hd vals))"

text \<open>\<open>read_input_float(mb, address, order)\<close>; \<open>regs\<close> is what the read returned.\<close>

definition read_input_float :: "(byte list \<Rightarrow> real) \<Rightarrow> register list option \<Rightarrow> string \<Rightarrow> real option" where
  "read_input_float unpack_f regs order =
     (case regs of
        None \<Rightarrow> None
      | Some rs \<Rightarrow> if rs = [] \<or> length rs < 2 then None
                   else Some (decode_float unpack_f (rs ! 0) (rs ! 1) order))"

subsection \<open>Historian (class Historian)\<close>

text \<open>
  The fields of a \<open>Historian\<close> that its loop uses. A minimum map entry is
  \<open>(reg, order)\<close>. The values of a sample are \<open>real option\<close>s, because the program pads
  them with \<open>None\<close>.
\<close>

record historian =
  table :: string
  live_regs :: "(nat \<times> string) list"
  min_map :: "nat \<rightharpoonup> (int \<times> string)"
  val_count :: nat
  last_good :: "real option list"

definition AN1_MIN_MAP :: "nat \<rightharpoonup> (int \<times> string)" where
  "AN1_MIN_MAP =
     [1 \<mapsto> (100, ''CDAB''), 2 \<mapsto> (104, ''CDAB''), 3 \<mapsto> (108, ''CDAB''),
      4 \<mapsto> (112, ''CDAB''), 5 \<mapsto> (118, ''CDAB'')]"

definition AN2_MIN_MAP :: "nat \<rightharpoonup> (int \<times> string)" where
  "AN2_MIN_MAP = [1 \<mapsto> (114, ''CDAB''), 2 \<mapsto> (118, ''CDAB'')]"

definition Historian :: "(nat \<times> string) list \<Rightarrow> (nat \<rightharpoonup> (int \<times> string)) \<Rightarrow> string \<Rightarrow> nat \<Rightarrow> historian" where
  "Historian regs mins tbl n =
     \<lparr>table = tbl, live_regs = regs, min_map = mins, val_count = n, last_good = replicate n (Some 0)\<rparr>"

text \<open>
  What one tick observes: the block read from the flow device, the answer of
  \<open>read_bit_status\<close> for each discrete input (each address is read once in a tick), the
  block read from the analyzer, and the answer of the range cache for the minimum of the
  channel with a given index (asked at most once for each index).
\<close>

record hist_obs =
  flow_regs :: "register list option"
  status_bit :: "int \<Rightarrow> bool option"
  an_regs :: "register list option"
  min_float :: "nat \<Rightarrow> real option"

text \<open>The parameters of the INSERT that a tick puts on the SQL queue (without the date).\<close>

record hist_row =
  row_table :: string
  row_vals :: "real option list"
  row_flow :: real
  row_analyzer_mode :: string
  row_level_mode :: string
  row_is_calibration :: int
  row_plant_status :: string

definition CAL_MODES :: "(int \<times> string) list" where
  "CAL_MODES = [(1201, ''N2O ZERO''), (1202, ''N2O SPAN''), (1203, ''NO SPAN''), (1204, ''O2 SPAN'')]"

text \<open>\<open>_is_calibration\<close>: \<open>if b\<close> holds for \<open>True\<close> only, not for \<open>False\<close> or \<open>None\<close>.\<close>

definition is_calibration :: "(int \<Rightarrow> bool option) \<Rightarrow> string \<times> int" where
  "is_calibration rbs =
     (let active = map snd (filter (\<lambda>(addr, mode). rbs addr = Some True) CAL_MODES)
      in if active \<noteq> [] then (hd active, 1) else (''ANALYZER IDLE'', 0))"

definition LEVEL_DI :: "(string \<times> int) list" where
  "LEVEL_DI = [(''LOW'', 3), (''MID'', 4), (''HIGH'', 5)]"

definition level_mode :: "(int \<Rightarrow> bool option) \<Rightarrow> string" where
  "level_mode rbs =
     (case filter (\<lambda>(nm, addr). rbs addr = Some True)
             [(''LOW LEVEL'', the (map_of LEVEL_DI ''LOW'')),
              (''MID LEVEL'', the (map_of LEVEL_DI ''MID'')),
              (''HIGH LEVEL'', the (map_of LEVEL_DI ''HIGH''))] of
        [] \<Rightarrow> ''LEVEL IDLE''
      | (nm, _) # _ \<Rightarrow> nm)"

text \<open>
  \<open>_invalid_min_only(values)\<close>, from index \<open>idx\<close> on. Comparing \<open>None\<close> with a float
  raises \<open>TypeError\<close>.
\<close>

fun invalid_min_only :: "(nat \<rightharpoonup> (int \<times> string)) \<Rightarrow> (nat \<Rightarrow> real option) \<Rightarrow> nat \<Rightarrow> real option list \<Rightarrow> py_error + bool" where
  "invalid_min_only mm mins idx [] = Inr False"
| "invalid_min_only mm mins idx (v # values) =
     (case mm idx of
        None \<Rightarrow> invalid_min_only mm mins (Suc idx) values
      | Some cfg \<Rightarrow>
          (case mins idx of
             None \<Rightarrow> invalid_min_only mm mins (Suc idx) values
           | Some mn \<Rightarrow>
               (case v of
                  None \<Rightarrow> Inl TypeError
                | Some x \<Rightarrow> if x < mn then Inr True
                            else invalid_min_only mm mins (Suc idx) values)))"

definition mk_row :: "historian \<Rightarrow> real option list \<Rightarrow> real \<Rightarrow> string \<Rightarrow> string \<Rightarrow> int \<Rightarrow> string \<Rightarrow> hist_row" where
  "mk_row h new_vals flow analyzer_mode lvl is_cal pstat =
     \<lparr>row_table = table h, row_vals = take 5 (new_vals @ replicate 5 None), row_flow = flow,
      row_analyzer_mode = analyzer_mode, row_level_mode = lvl, row_is_calibration = is_cal,
      row_plant_status = pstat\<rparr>"

text \<open>The \<open>try\<close> block of one iteration of \<open>Historian.run\<close>.\<close>

definition historian_try :: "(byte list \<Rightarrow> real) \<Rightarrow> historian \<Rightarrow> hist_obs \<Rightarrow> py_error + (historian \<times> hist_row)" where
  "historian_try unpack_f h obs =
     (case read_flow unpack_f (flow_regs obs) of
        Inl e \<Rightarrow> Inl e
      | Inr flow \<Rightarrow>
          (let pstat = plant_status (Some flow);
               (analyzer_mode, is_cal) = is_calibration (status_bit obs);
               lvl = level_mode (status_bit obs)
           in case read_block_input unpack_f (an_regs obs) (live_regs h) of
                Inl e \<Rightarrow> Inl e
              | Inr None \<Rightarrow> Inr (h, mk_row h (last_good h) flow ''ANALYZER OFFLINE'' lvl 0 pstat)
              | Inr (Some vs) \<Rightarrow>
                  (let new_vals = take (val_count h) (map Some vs @ replicate (val_count h) None)
                   in if analyzer_mode = ''ANALYZER IDLE''
                      then (case invalid_min_only (min_map h) (min_float obs) 1 new_vals of
                              Inl e \<Rightarrow> Inl e
                            | Inr True \<Rightarrow> Inr (h, mk_row h new_vals flow ''ANALYZER INVALID'' lvl is_cal pstat)
                            | Inr False \<Rightarrow>
                                Inr (h\<lparr>last_good := new_vals\<rparr>,
                                     mk_row h new_vals flow analyzer_mode lvl is_cal pstat))
                      else Inr (h, mk_row h (last_good h) flow analyzer_mode lvl is_cal pstat))))"

text \<open>
  One iteration of the loop of \<open>Historian.run\<close>: the new state and the row put on the SQL
  queue, if any. An exception is logged, nothing is queued, and the state is as before (the
  assignment to \<open>last_good\<close> is the last statement that can fail).
\<close>

definition historian_tick :: "(byte list \<Rightarrow> real) \<Rightarrow> historian \<Rightarrow> hist_obs \<Rightarrow> historian \<times> hist_row option" where
  "historian_tick unpack_f h obs =
     (case historian_try unpack_f h obs of
        Inl e \<Rightarrow> (h, None)
      | Inr (h', r) \<Rightarrow> (h', Some r))"

subsection \<open>Strings\<close>

text \<open>
  \<open>str.upper\<close> and \<open>str.title\<close> on ASCII text (the level keys are ASCII), and the
  decimal \<open>str\<close> of a natural number.
\<close>

definition is_lower :: "char \<Rightarrow> bool" where
  "is_lower c = (97 \<le> (of_char c :: nat) \<and> (of_char c :: nat) \<le> 122)"

definition is_upper :: "char \<Rightarrow> bool" where
  "is_upper c = (65 \<le> (of_char c :: nat) \<and> (of_char c :: nat) \<le> 90)"

definition to_upper :: "char \<Rightarrow> char" where
  "to_upper c = (if is_lower c then char_of ((of_char c :: nat) - 32) else c)"

definition to_lower :: "char \<Rightarrow> char" where
  "to_lower c = (if is_upper c then char_of ((of_char c :: nat) + 32) else c)"

definition upper :: "string \<Rightarrow> string" where
  "upper s = map to_upper s"

fun title_from :: "bool \<Rightarrow> string \<Rightarrow> string" where
  "title_from prev_cased [] = []"
| "title_from prev_cased (c # cs) =
     (if is_lower c \<or> is_upper c
      then (if prev_cased then to_lower c else to_upper c) # title_from True cs
      else c # title_from False cs)"

definition title :: "string \<Rightarrow> string" where
  "title s = title_from False s"

fun str_nat :: "nat \<Rightarrow> string" where
  "str_nat n = (if n < 10 then [char_of (48 + n)] else str_nat (n div 10) @ [char_of (48 + n mod 10)])"

declare str_nat.simps [simp del]

subsection \<open>Level capture (level\_capture\_worker, class LevelMonitor)\<close>

definition LEVEL_DELAYS :: "nat list" where
  "LEVEL_DELAYS = [120, 10, 10]"

definition AN1_ACTUAL_REF :: "string \<rightharpoonup> int option" where
  "AN1_ACTUAL_REF = [''LOW'' \<mapsto> None, ''MID'' \<mapsto> Some 111, ''HIGH'' \<mapsto> Some 123]"

definition AN2_LEVEL_REF :: "string \<rightharpoonup> (int \<times> string)" where
  "AN2_LEVEL_REF = [''LOW'' \<mapsto> (130, ''CDAB''), ''MID'' \<mapsto> (132, ''CDAB''), ''HIGH'' \<mapsto> (130, ''CDAB'')]"

text \<open>A row put by \<open>sql_put_level\<close>: table, level name, value type, value.\<close>

type_synonym level_row = "string \<times> string \<times> string \<times> real"

text \<open>
  The loop over \<open>enumerate(LEVEL_DELAYS, start=1)\<close>: after each delay one read of the
  analyzer; \<open>rd i\<close> is what the \<open>i\<close>-th read returned. The result is the list \<open>vals\<close> and the
  rows put on the queue.
\<close>

fun capture_reads ::
  "(byte list \<Rightarrow> real) \<Rightarrow> string \<Rightarrow> string \<Rightarrow> (nat \<Rightarrow> register list option) \<Rightarrow> nat \<Rightarrow> nat list
     \<Rightarrow> real list \<times> level_row list" where
  "capture_reads unpack_f tbl level_name rd i [] = ([], [])"
| "capture_reads unpack_f tbl level_name rd i (delay_s # delays) =
     (let (vals, rows) = capture_reads unpack_f tbl level_name rd (Suc i) delays
      in case read_input_float unpack_f (rd i) ''ABCD'' of
           None \<Rightarrow> (vals, rows)
         | Some v \<Rightarrow> (v # vals, (tbl, level_name, ''Val '' @ str_nat i, v) # rows))"

text \<open>
  The block "actual reference" of \<open>level_capture_worker\<close>: the reference value for a
  level key, \<open>0.0\<close> when no register is configured for it or the register cannot be read.
\<close>

definition actual_reference :: "'s fetch \<Rightarrow> string \<Rightarrow> string \<Rightarrow> 's \<Rightarrow> real \<times> 's" where
  "actual_reference fetch level_key actual_ref_mode s =
     (if actual_ref_mode = ''AN1_LEGACY''
      then (case (case AN1_ACTUAL_REF (upper level_key) of None \<Rightarrow> None | Some r \<Rightarrow> r) of
              None \<Rightarrow> (0, s)
            | Some reg \<Rightarrow>
                (case fetch reg ''CDAB'' s of
                   (None, s1) \<Rightarrow> (0, s1)
                 | (Some a, s1) \<Rightarrow> (a, s1)))
      else (case AN2_LEVEL_REF (upper level_key) of
              Some (expected_reg, order) \<Rightarrow>
                (case fetch expected_reg order s of
                   (None, s1) \<Rightarrow> (0, s1)
                 | (Some a, s1) \<Rightarrow> (a, s1))
            | None \<Rightarrow> (0, s)))"

text \<open>
  \<open>level_capture_worker\<close>: the rows put on the queue, the exception that the outer
  \<open>except\<close> caught (if any), and the state behind \<open>read_holding_float_cached\<close>. The trigger
  is not an argument of the worker, and the worker never reads it.
\<close>

definition level_capture_worker ::
  "(byte list \<Rightarrow> real) \<Rightarrow> 's fetch \<Rightarrow> string \<Rightarrow> string \<Rightarrow> string \<Rightarrow> (nat \<Rightarrow> register list option) \<Rightarrow> 's
     \<Rightarrow> level_row list \<times> py_error option \<times> 's" where
  "level_capture_worker unpack_f fetch tbl level_key actual_ref_mode rd s =
     (let level_name = title level_key @ '' Level'';
          (vals, rows) = capture_reads unpack_f tbl level_name rd 1 LEVEL_DELAYS
      in if vals = [] then (rows, None, s)
         else case py_div (sum_list vals) (real (length vals)) of
                Inl e \<Rightarrow> (rows, Some e, s)
              | Inr avg_val \<Rightarrow>
                  (let rows1 = rows @ [(tbl, level_name, ''Avg'', avg_val)];
                       (actual_val, s') = actual_reference fetch level_key actual_ref_mode s;
                       err = avg_val - actual_val
                   in case (if actual_val \<noteq> 0
                            then (case py_div err actual_val of
                                    Inl e \<Rightarrow> Inl e
                                  | Inr q \<Rightarrow> Inr (q * 100))
                            else Inr 0) of
                        Inl e \<Rightarrow> (rows1, Some e, s')
                      | Inr pct \<Rightarrow>
                          (rows1 @ [(tbl, level_name, ''Actual'', actual_val),
                                    (tbl, level_name, ''Error'', err),
                                    (tbl, level_name, ''% Error'', pct)], None, s')))"

text \<open>
  The state of a \<open>LevelMonitor\<close>: the dictionary \<open>last\<close>, and the capture threads it has
  started, each with its level key and the time of its start (the list records the effect
  of \<open>Thread(...).start()\<close>; the class keeps no reference to its threads).
\<close>

record level_monitor =
  lm_last :: "string \<Rightarrow> bool"
  lm_started :: "(string \<times> real) list"

definition LevelMonitor :: level_monitor where
  "LevelMonitor = \<lparr>lm_last = (\<lambda>k. False), lm_started = []\<rparr>"

text \<open>
  The body of the \<open>for\<close> loop of \<open>LevelMonitor.run\<close> for one key, at time \<open>now\<close>, when
  \<open>read_bit_status(di)\<close> returned \<open>st\<close>.
\<close>

definition level_poll :: "real \<Rightarrow> string \<Rightarrow> bool option \<Rightarrow> level_monitor \<Rightarrow> level_monitor" where
  "level_poll now key st m =
     (case st of
        None \<Rightarrow> m
      | Some b \<Rightarrow>
          (let m1 = (if b \<and> \<not> lm_last m key then m\<lparr>lm_started := lm_started m @ [(key, now)]\<rparr> else m)
           in m1\<lparr>lm_last := (lm_last m1)(key := b)\<rparr>))"

text \<open>One pass of the \<open>while\<close> loop: every key of \<open>LEVEL_DI\<close> in order.\<close>

definition level_pass :: "real \<Rightarrow> (int \<Rightarrow> bool option) \<Rightarrow> level_monitor \<Rightarrow> level_monitor" where
  "level_pass now rbs m = fold (\<lambda>(key, di). level_poll now key (rbs di)) LEVEL_DI m"

text \<open>
  A capture thread started at \<open>t0\<close> sleeps through every delay of \<open>LEVEL_DELAYS\<close> before it
  returns, whatever it reads, so it is still running at every time before
  \<open>t0 + sum(LEVEL_DELAYS)\<close>.
\<close>

definition level_running :: "real \<Rightarrow> string \<times> real \<Rightarrow> bool" where
  "level_running t th = (snd th \<le> t \<and> t < snd th + real (sum_list LEVEL_DELAYS))"

definition level_sessions :: "real \<Rightarrow> string \<Rightarrow> level_monitor \<Rightarrow> nat" where
  "level_sessions t key m = length (filter (\<lambda>th. fst th = key \<and> level_running t th) (lm_started m))"

subsection \<open>Calibration capture (class CalWorker, class CalMonitor)\<close>

text \<open>An entry of a trigger map: name, stabilization delay and the tags to capture.\<close>

record cal_info =
  info_name :: string
  info_delay :: nat
  info_capture :: "string list"

definition CAL_TRIG_AN1 :: "int \<rightharpoonup> cal_info" where
  "CAL_TRIG_AN1 =
     [1201 \<mapsto> \<lparr>info_name = ''N2O ZERO'', info_delay = 120, info_capture = [''N2O'', ''NO'', ''O2'']\<rparr>,
      1202 \<mapsto> \<lparr>info_name = ''N2O SPAN'', info_delay = 60, info_capture = [''N2O'']\<rparr>,
      1203 \<mapsto> \<lparr>info_name = ''NO SPAN'', info_delay = 60, info_capture = [''NO'']\<rparr>,
      1204 \<mapsto> \<lparr>info_name = ''O2 SPAN'', info_delay = 30, info_capture = [''O2'']\<rparr>]"

text \<open>
  \<open>read_measured(mb_an, range_map, tag)\<close>; \<open>regs\<close> is what the read of the two input
  registers returned.
\<close>

definition read_measured ::
  "(byte list \<Rightarrow> real) \<Rightarrow> register list option \<Rightarrow> range_map \<Rightarrow> string \<Rightarrow> py_error + real option" where
  "read_measured unpack_f regs range_map tag =
     (case range_map tag of
        None \<Rightarrow> Inl KeyError
      | Some (in_reg, fmt, _) \<Rightarrow>
          (case regs of
             None \<Rightarrow> Inr None
           | Some rs \<Rightarrow> if rs = [] \<or> length rs < 2 then Inr None
                        else Inr (Some (decode_float unpack_f (rs ! 0) (rs ! 1) fmt))))"

text \<open>
  What one iteration of the capture loop observes: whether the stop event is set, what
  \<open>read_bit_status(trig_addr)\<close> returned, and what the read of the measured registers of
  each tag returned.
\<close>

record cal_poll =
  stop_set :: bool
  active :: "bool option"
  measured :: "string \<Rightarrow> register list option"

text \<open>A row put on the queue: table, calibration name, tag, value and the evaluation.\<close>

type_synonym cal_row = "string \<times> string \<times> string \<times> real \<times> eval_result"

text \<open>
  The loop \<open>for tag in tags\<close> of one capture iteration: the rows put on the queue, the
  exception that ended the loop (if any), and the state behind the reference cache.
\<close>

fun capture_tags ::
  "(byte list \<Rightarrow> real) \<Rightarrow> 's fetch \<Rightarrow> string \<Rightarrow> string \<Rightarrow> range_map \<Rightarrow> cal_poll \<Rightarrow> string list \<Rightarrow> 's
     \<Rightarrow> cal_row list \<times> py_error option \<times> 's" where
  "capture_tags unpack_f fetch tbl cal_name range_map p [] s = ([], None, s)"
| "capture_tags unpack_f fetch tbl cal_name range_map p (tag # tags) s =
     (if range_map tag = None then capture_tags unpack_f fetch tbl cal_name range_map p tags s
      else case read_measured unpack_f (measured p tag) range_map tag of
             Inl e \<Rightarrow> ([], Some e, s)
           | Inr None \<Rightarrow> capture_tags unpack_f fetch tbl cal_name range_map p tags s
           | Inr (Some val) \<Rightarrow>
               (case evaluate fetch tag val cal_name range_map s of
                  Inl e \<Rightarrow> ([], Some e, s)
                | Inr (r, s1) \<Rightarrow>
                    (let (rows, e, s2) = capture_tags unpack_f fetch tbl cal_name range_map p tags s1
                     in ((tbl, cal_name, tag, val, r) # rows, e, s2))))"

text \<open>How a session stands when its observations end.\<close>

datatype session_end = Ended | Raised py_error | Running

text \<open>
  \<open>CalWorker.run\<close>. The first loop waits until the stabilization delay has passed or the
  stop event is set; it reads no device and puts no row. The second loop is the recursion
  below, over the observations of its iterations in order; the head of the list is the
  first poll after the delay. When the observations end while the trigger is still true,
  the session is still \<open>Running\<close>. \<open>run\<close> has no exception handler: an exception ends the
  thread.
\<close>

fun CalWorker_run ::
  "(byte list \<Rightarrow> real) \<Rightarrow> 's fetch \<Rightarrow> string \<Rightarrow> cal_info \<Rightarrow> range_map \<Rightarrow> cal_poll list \<Rightarrow> 's
     \<Rightarrow> cal_row list \<times> session_end \<times> 's" where
  "CalWorker_run unpack_f fetch tbl info range_map [] s = ([], Running, s)"
| "CalWorker_run unpack_f fetch tbl info range_map (p # ps) s =
     (if stop_set p then ([], Ended, s)
      else if active p \<noteq> Some True then ([], Ended, s)
      else (case capture_tags unpack_f fetch tbl (info_name info) range_map p (info_capture info) s of
              (rows, Some e, s1) \<Rightarrow> (rows, Raised e, s1)
            | (rows, None, s1) \<Rightarrow>
                (let (rows', r, s2) = CalWorker_run unpack_f fetch tbl info range_map ps s1
                 in (rows @ rows', r, s2))))"

text \<open>
  The state of a \<open>CalMonitor\<close>: the dictionaries \<open>last\<close> and \<open>workers\<close>, and the worker
  threads it has started. A thread is its trigger address and whether it is alive; the
  value of \<open>workers\<close> is the position of the thread in that list.
\<close>

record cal_monitor =
  cm_last :: "int \<Rightarrow> bool"
  cm_workers :: "int \<rightharpoonup> nat"
  cm_threads :: "(int \<times> bool) list"

definition CalMonitor :: cal_monitor where
  "CalMonitor = \<lparr>cm_last = (\<lambda>a. False), cm_workers = Map.empty, cm_threads = []\<rparr>"

definition is_alive :: "cal_monitor \<Rightarrow> nat \<Rightarrow> bool" where
  "is_alive m w = (w < length (cm_threads m) \<and> snd (cm_threads m ! w))"

text \<open>
  What happens to a monitor: the body of its \<open>for\<close> loop runs for one address, with the
  answer of \<open>read_bit_status\<close>, or one of its worker threads ends.
\<close>

datatype cal_event = Poll int "bool option" | Exit nat

definition cal_poll_addr :: "int \<Rightarrow> bool option \<Rightarrow> cal_monitor \<Rightarrow> cal_monitor" where
  "cal_poll_addr addr st m =
     (case st of
        None \<Rightarrow> m
      | Some b \<Rightarrow>
          (let m1 = (if b \<and> \<not> cm_last m addr
                     then (case cm_workers m addr of
                             None \<Rightarrow>
                               m\<lparr>cm_workers := (cm_workers m)(addr \<mapsto> length (cm_threads m)),
                                 cm_threads := cm_threads m @ [(addr, True)]\<rparr>
                           | Some w \<Rightarrow>
                               if \<not> is_alive m w
                               then m\<lparr>cm_workers := (cm_workers m)(addr \<mapsto> length (cm_threads m)),
                                      cm_threads := cm_threads m @ [(addr, True)]\<rparr>
                               else m)
                     else m)
           in m1\<lparr>cm_last := (cm_last m1)(addr := b)\<rparr>))"

definition cal_exit :: "nat \<Rightarrow> cal_monitor \<Rightarrow> cal_monitor" where
  "cal_exit w m =
     (if w < length (cm_threads m)
      then m\<lparr>cm_threads := (cm_threads m)[w := (fst (cm_threads m ! w), False)]\<rparr>
      else m)"

fun cal_step :: "cal_monitor \<Rightarrow> cal_event \<Rightarrow> cal_monitor" where
  "cal_step m (Poll addr st) = cal_poll_addr addr st m"
| "cal_step m (Exit w) = cal_exit w m"

definition cal_sessions :: "int \<Rightarrow> cal_monitor \<Rightarrow> nat" where
  "cal_sessions addr m = length (filter (\<lambda>th. fst th = addr \<and> snd th) (cm_threads m))"

text \<open>
  The invariant of a \<open>CalMonitor\<close>: every live worker thread is the one that \<open>workers\<close>
  records for its trigger address.
\<close>

definition cal_monitor_inv :: "cal_monitor \<Rightarrow> bool" where
  "cal_monitor_inv m =
     (\<forall>w < length (cm_threads m). snd (cm_threads m ! w) \<longrightarrow> cm_workers m (fst (cm_threads m ! w)) = Some w)"

subsection \<open>SQL writer (class SQLWriter)\<close>

text \<open>The exceptions of the writer's loop by the handler that catches them.\<close>

datatype sql_exc = PyodbcError | OtherException

text \<open>
  The calls on the sink that returned normally, and the sleeps of the loop, in order.
  \<open>Close\<close> is recorded when \<open>close()\<close> is called: its failure is swallowed.
\<close>

datatype 'a sink_call = SqlConnect | Cursor | Execute 'a | Commit | Close | Sleep nat

record 'a sql_writer =
  conn_open :: bool
  queue :: "'a list"
  sink_log :: "'a sink_call list"

text \<open>
  What one iteration observes of the driver: the exception raised by \<open>sql_connect()\<close>, by
  \<open>cursor()\<close>, by the \<open>execute\<close> of the item at a position of the batch, and by
  \<open>commit()\<close>; \<open>None\<close> when the call returns.
\<close>

record sql_obs =
  connect_exc :: "sql_exc option"
  cursor_exc :: "sql_exc option"
  execute_exc :: "nat \<Rightarrow> sql_exc option"
  commit_exc :: "sql_exc option"

text \<open>
  \<open>while len(batch) < 300: batch.append(q.get_nowait())\<close>, until the queue is empty:
  the batch and what is left of the queue.
\<close>

function drain :: "'a list \<Rightarrow> 'a list \<Rightarrow> 'a list \<times> 'a list" where
  "drain batch q =
     (if length batch < 300
      then (case q of [] \<Rightarrow> (batch, q) | x # q' \<Rightarrow> drain (batch @ [x]) q')
      else (batch, q))"
  by pat_completeness auto
termination
  by (relation "measure (\<lambda>(batch, q). length q)") auto

declare drain.simps [simp del]

text \<open>\<open>for it in batch: cur.execute(...)\<close>, from position \<open>i\<close> of the batch.\<close>

fun execute_all :: "(nat \<Rightarrow> sql_exc option) \<Rightarrow> nat \<Rightarrow> 'a list \<Rightarrow> 'a sink_call list \<times> sql_exc option" where
  "execute_all ex i [] = ([], None)"
| "execute_all ex i (it # its) =
     (case ex i of
        Some e \<Rightarrow> ([], Some e)
      | None \<Rightarrow> (let (calls, r) = execute_all ex (Suc i) its in (Execute it # calls, r)))"

text \<open>
  The \<open>try\<close> block of one iteration of \<open>SQLWriter.run\<close>: the state when the block is left
  and the exception that left it, if any. An empty queue (\<open>queue.Empty\<close> after the timeout
  of the first \<open>get\<close>) leaves the block by \<open>continue\<close>.
\<close>

definition writer_try :: "sql_obs \<Rightarrow> 'a sql_writer \<Rightarrow> 'a sql_writer \<times> sql_exc option" where
  "writer_try obs w =
     (case (if \<not> conn_open w
            then (case connect_exc obs of
                    Some e \<Rightarrow> (w, Some e)
                  | None \<Rightarrow> (w\<lparr>conn_open := True, sink_log := sink_log w @ [SqlConnect]\<rparr>, None))
            else (w, None)) of
        (w1, Some e) \<Rightarrow> (w1, Some e)
      | (w1, None) \<Rightarrow>
          (case queue w1 of
             [] \<Rightarrow> (w1, None)
           | item # q \<Rightarrow>
               (let (batch, q') = drain [item] q;
                    w2 = w1\<lparr>queue := q'\<rparr>
                in case cursor_exc obs of
                     Some e \<Rightarrow> (w2, Some e)
                   | None \<Rightarrow>
                       (let (calls, r) = execute_all (execute_exc obs) 0 batch;
                            w3 = w2\<lparr>sink_log := sink_log w2 @ Cursor # calls\<rparr>
                        in case r of
                             Some e \<Rightarrow> (w3, Some e)
                           | None \<Rightarrow>
                               (case commit_exc obs of
                                  Some e \<Rightarrow> (w3, Some e)
                                | None \<Rightarrow> (w3\<lparr>sink_log := sink_log w3 @ [Commit]\<rparr>, None))))))"

text \<open>
  One iteration of the loop with its two handlers. The handler of \<open>pyodbc.Error\<close> closes
  the connection if there is one, forgets it and sleeps 5 seconds; the handler of any
  other exception sleeps 1 second. Neither puts an item back on the queue.
\<close>

definition writer_iteration :: "sql_obs \<Rightarrow> 'a sql_writer \<Rightarrow> 'a sql_writer" where
  "writer_iteration obs w =
     (case writer_try obs w of
        (w', None) \<Rightarrow> w'
      | (w', Some PyodbcError) \<Rightarrow>
          w'\<lparr>conn_open := False,
             sink_log := sink_log w' @ (if conn_open w' then [Close] else []) @ [Sleep 5]\<rparr>
      | (w', Some OtherException) \<Rightarrow> w'\<lparr>sink_log := sink_log w' @ [Sleep 1]\<rparr>)"

section \<open>Properties\<close>

subsection \<open>Calibration evaluator\<close>

lemma evaluate_tail_Some:
  "evaluate_tail factor val (Some e) (Some mn) (Some mx) =
     Inr (Some e, Some (val - e),
          Some (if e \<noteq> 0 then \<bar>val - e\<bar> / e * real_of_int factor else \<bar>val\<bar> * real_of_int factor),
          if mn \<le> val \<and> val \<le> mx then ''CAL OK'' else ''OUT OF CONTROL'')"
  by (simp add: evaluate_tail_def py_div_def Let_def)

text \<open>
  Claim C5. For every call \<open>evaluate(tag, measured, cal_name, range_map)\<close> on a tag of the
  range map in which the references are available (the constants \<open>0.0\<close>, \<open>-0.2\<close>, \<open>0.2\<close>
  of the zero kind, or three values read through the cache for any other kind): the
  error is measured minus expected; the accuracy is \<open>|error| / expected * factor\<close> when
  expected is not zero and \<open>|measured| * factor\<close> when it is zero, so that the call returns
  and no division by zero is raised; and the status is \<open>CAL OK\<close> exactly when
  \<open>min \<le> measured \<le> max\<close>, otherwise \<open>OUT OF CONTROL\<close>.
\<close>

theorem evaluate_formulas:
  assumes tag: "range_map tag = Some (in_reg, fmt, exp_reg, min_reg, max_reg, factor)"
    and refs: "(cal_name = ''N2O ZERO'' \<and> e = 0 \<and> mn = - 0.2 \<and> mx = 0.2 \<and> s' = s) \<or>
               (cal_name \<noteq> ''N2O ZERO'' \<and>
                read_expected_min_max fetch range_map tag s = Inr ((Some e, Some mn, Some mx), s'))"
  shows "evaluate fetch tag val cal_name range_map s =
           Inr ((Some e, Some (val - e),
                 Some (if e \<noteq> 0 then \<bar>val - e\<bar> / e * real_of_int factor
                       else \<bar>val\<bar> * real_of_int factor),
                 if mn \<le> val \<and> val \<le> mx then ''CAL OK'' else ''OUT OF CONTROL''), s')"
  using refs
proof
  assume "cal_name = ''N2O ZERO'' \<and> e = 0 \<and> mn = - 0.2 \<and> mx = 0.2 \<and> s' = s"
  then show ?thesis
    using tag by (simp add: evaluate_def evaluate_tail_Some)
next
  assume "cal_name \<noteq> ''N2O ZERO'' \<and>
          read_expected_min_max fetch range_map tag s = Inr ((Some e, Some mn, Some mx), s')"
  then show ?thesis
    using tag by (simp add: evaluate_def evaluate_tail_Some)
qed

text \<open>
  The theorem at two calls on analyzer 1: a span calibration whose references are read as
  124, 100 and 102, and a zero calibration (whose references are never read).
\<close>

theorem evaluate_formulas_witness:
  "evaluate (\<lambda>reg order s. (Some (real_of_int reg), s)) ''N2O'' 101 ''N2O SPAN'' AN1_RANGE_MAP () =
     Inr ((Some 124, Some (- 23), Some (2300 / 124), ''CAL OK''), ())
   \<and> evaluate (\<lambda>reg order s. (None, s)) ''N2O'' 0.5 ''N2O ZERO'' AN1_RANGE_MAP () =
     Inr ((Some 0, Some 0.5, Some 50, ''OUT OF CONTROL''), ())"
proof -
  have t: "AN1_RANGE_MAP ''N2O'' = Some (0, ''ABCD'', 124, 100, 102, 100)"
    by (simp add: AN1_RANGE_MAP_def)
  have r: "read_expected_min_max (\<lambda>reg order s. (Some (real_of_int reg), s)) AN1_RANGE_MAP ''N2O'' ()
             = Inr ((Some 124, Some 100, Some 102), ())"
    by (simp add: read_expected_min_max_def AN1_RANGE_MAP_def fetch_if_def)
  have a: "evaluate (\<lambda>reg order s. (Some (real_of_int reg), s)) ''N2O'' 101 ''N2O SPAN'' AN1_RANGE_MAP () =
     Inr ((Some 124, Some (- 23), Some (2300 / 124), ''CAL OK''), ())"
    using evaluate_formulas [where range_map = AN1_RANGE_MAP and tag = "''N2O''" and cal_name = "''N2O SPAN''"
        and e = 124 and mn = 100 and mx = 102 and s = "()" and s' = "()" and val = 101
        and fetch = "(\<lambda>reg order s. (Some (real_of_int reg), s))", OF t] r
    by simp
  have b: "evaluate (\<lambda>reg order s. (None, s)) ''N2O'' 0.5 ''N2O ZERO'' AN1_RANGE_MAP () =
     Inr ((Some 0, Some 0.5, Some 50, ''OUT OF CONTROL''), ())"
    using evaluate_formulas [where range_map = AN1_RANGE_MAP and tag = "''N2O''" and cal_name = "''N2O ZERO''"
        and e = 0 and mn = "- 0.2" and mx = "0.2" and s = "()" and s' = "()" and val = "0.5"
        and fetch = "(\<lambda>reg order s. (None, s))", OF t]
    by simp
  show ?thesis using a b by simp
qed

text \<open>
  Claim C6. For every call of \<open>evaluate\<close> on a tag of the range map with a calibration
  kind other than the zero kind: if \<open>read_expected_min_max\<close> gets no value for the expected,
  the minimum or the maximum reference, \<open>evaluate\<close> returns (it does not raise) the status
  \<open>READ ERROR\<close> with expected, error and accuracy all \<open>None\<close>. For the zero kind
  \<open>evaluate\<close> returns a status other than \<open>READ ERROR\<close> whatever the cache would answer.
\<close>

theorem evaluate_read_error:
  assumes tag: "range_map tag = Some entry"
  shows "(cal_name \<noteq> ''N2O ZERO'' \<longrightarrow>
            read_expected_min_max fetch range_map tag s = Inr ((ex, mn, mx), s') \<longrightarrow>
            (ex = None \<or> mn = None \<or> mx = None) \<longrightarrow>
            evaluate fetch tag val cal_name range_map s = Inr ((None, None, None, ''READ ERROR''), s'))
         \<and> (cal_name = ''N2O ZERO'' \<longrightarrow>
              (\<exists>e err acc status. evaluate fetch tag val cal_name range_map s = Inr ((e, err, acc, status), s)
                 \<and> status \<noteq> ''READ ERROR''))"
proof -
  obtain a b c d e f where entry: "entry = (a, b, c, d, e, f)"
    by (cases entry)
  show ?thesis
    using tag unfolding entry
    by (auto simp add: evaluate_def evaluate_tail_Some)
qed

text \<open>
  The theorem at a span calibration whose minimum (register 100) cannot be read, at a zero
  calibration with a cache that answers nothing, and at a span calibration that reads its
  references through the empty range cache from a range device that refuses the connection
  (the first lookup fails to connect, the other two fail fast).
\<close>

theorem evaluate_read_error_witness:
  "evaluate (\<lambda>reg order s. (if reg = 100 then None else Some 1, s)) ''N2O'' 7 ''N2O SPAN'' AN1_RANGE_MAP () =
     Inr ((None, None, None, ''READ ERROR''), ())
   \<and> (\<exists>e err acc status. evaluate (\<lambda>reg order s. (None, s)) ''N2O'' 7 ''N2O ZERO'' AN1_RANGE_MAP ()
          = Inr ((e, err, acc, status), ()) \<and> status \<noteq> ''READ ERROR'')
   \<and> evaluate
        (read_holding_float_cached (\<lambda>bs. 0) 50
           \<lparr>t_ensure = 50, conn = ConnectFalse, answer = (\<lambda>a c. ErrorReply), still_connected = False,
            t_except = 50\<rparr>)
        ''N2O'' 7 ''N2O SPAN'' AN1_RANGE_MAP (Map.empty, SharedModbus)
      = Inr ((None, None, None, ''READ ERROR''),
             (Map.empty, \<lparr>client = Some False, last_fail = 50, connects = 1\<rparr>))"
proof -
  let ?off = "read_holding_float_cached (\<lambda>bs. 0) 50
           \<lparr>t_ensure = 50, conn = ConnectFalse, answer = (\<lambda>a c. ErrorReply), still_connected = False,
            t_except = 50\<rparr>"
  have t: "AN1_RANGE_MAP ''N2O'' = Some (0, ''ABCD'', 124, 100, 102, 100)"
    by (simp add: AN1_RANGE_MAP_def)
  have r: "read_expected_min_max (\<lambda>reg order s. (if reg = 100 then None else Some 1, s)) AN1_RANGE_MAP ''N2O'' ()
             = Inr ((Some 1, None, Some 1), ())"
    by (simp add: read_expected_min_max_def AN1_RANGE_MAP_def fetch_if_def)
  have o: "read_expected_min_max ?off AN1_RANGE_MAP ''N2O'' (Map.empty, SharedModbus)
             = Inr ((None, None, None), (Map.empty, \<lparr>client = Some False, last_fail = 50, connects = 1\<rparr>))"
    by (simp add: read_expected_min_max_def AN1_RANGE_MAP_def fetch_if_def read_holding_float_cached_def
          get_float_holding_def RANGE_ADDR_OFFSET_def read_holding_regs_def mb_read_def mb_ensure_def
          mb_connect_def SharedModbus_def)
  have c: "evaluate ?off ''N2O'' 7 ''N2O SPAN'' AN1_RANGE_MAP (Map.empty, SharedModbus)
      = Inr ((None, None, None, ''READ ERROR''),
             (Map.empty, \<lparr>client = Some False, last_fail = 50, connects = 1\<rparr>))"
    using evaluate_read_error [where range_map = AN1_RANGE_MAP and tag = "''N2O''" and cal_name = "''N2O SPAN''"
        and fetch = ?off and s = "(Map.empty, SharedModbus)" and ex = None and mn = None and mx = None
        and s' = "(Map.empty, \<lparr>client = Some False, last_fail = 50, connects = 1\<rparr>)" and val = 7, OF t] o
    by simp
  show ?thesis
    using evaluate_read_error [where range_map = AN1_RANGE_MAP and tag = "''N2O''" and cal_name = "''N2O SPAN''"
        and fetch = "(\<lambda>reg order s. (if reg = 100 then None else Some 1, s))" and s = "()"
        and ex = "Some 1" and mn = None and mx = "Some 1" and s' = "()" and val = 7, OF t]
      evaluate_read_error [where range_map = AN1_RANGE_MAP and tag = "''N2O''" and cal_name = "''N2O ZERO''"
        and fetch = "(\<lambda>reg order s. (None, s))" and s = "()" and val = 7, OF t] r c
    by simp
qed

subsection \<open>Level capture\<close>

text \<open>
  Claim C10. In every level capture session that records at least one sample, the worker
  returns without an exception, and the percent error it puts on the queue is guarded
  against division by zero: it is exactly \<open>0.0\<close> whenever the actual reference value is
  \<open>0.0\<close>, and the reference value is \<open>0.0\<close> in particular when the reference cannot be read.
  (Otherwise it is \<open>err / actual * 100\<close>.)
\<close>

theorem level_percent_error:
  assumes reads: "capture_reads unpack_f tbl (title level_key @ '' Level'') rd 1 LEVEL_DELAYS = (vals, rows)"
    and sample: "vals \<noteq> []"
    and ref: "actual_reference fetch level_key actual_ref_mode s = (actual_val, s')"
  shows "level_capture_worker unpack_f fetch tbl level_key actual_ref_mode rd s =
           (rows @ [(tbl, title level_key @ '' Level'', ''Avg'', sum_list vals / real (length vals)),
                    (tbl, title level_key @ '' Level'', ''Actual'', actual_val),
                    (tbl, title level_key @ '' Level'', ''Error'', sum_list vals / real (length vals) - actual_val),
                    (tbl, title level_key @ '' Level'', ''% Error'',
                       if actual_val = 0 then 0
                       else (sum_list vals / real (length vals) - actual_val) / actual_val * 100)],
            None, s')
         \<and> ((\<forall>reg order. fst (fetch reg order s) = None) \<longrightarrow> actual_val = 0)"
proof -
  have len: "real (length vals) \<noteq> 0" using sample by simp
  have a: "(\<forall>reg order. fst (fetch reg order s) = None) \<longrightarrow> actual_val = 0"
    using ref
    by (auto simp add: actual_reference_def split: if_splits option.splits prod.splits)
       (metis fst_conv option.distinct(1))+
  show ?thesis
    using reads sample ref len a
    by (simp add: level_capture_worker_def py_div_def Let_def)
qed

text \<open>
  The theorem at a session of analyzer 1 for the level MID whose first read succeeds
  (decoded as 6) while the reference register cannot be read.
\<close>

theorem level_percent_error_witness:
  "level_capture_worker (\<lambda>bs. 6) (\<lambda>reg order s. (None, s)) ''LevelCapture'' ''MID'' ''AN1_LEGACY''
      (\<lambda>i. if i = 1 then Some [0, 0] else None) () =
     ([(''LevelCapture'', ''Mid Level'', ''Val 1'', 6),
       (''LevelCapture'', ''Mid Level'', ''Avg'', 6),
       (''LevelCapture'', ''Mid Level'', ''Actual'', 0),
       (''LevelCapture'', ''Mid Level'', ''Error'', 6),
       (''LevelCapture'', ''Mid Level'', ''% Error'', 0)], None, ())"
proof -
  have t: "title ''MID'' = ''Mid''" by code_simp
  have u: "upper ''MID'' = ''MID''" by code_simp
  have n: "str_nat (Suc 0) = ''1''" by code_simp
  have reads: "capture_reads (\<lambda>bs. 6) ''LevelCapture'' (title ''MID'' @ '' Level'')
                 (\<lambda>i. if i = 1 then Some [0, 0] else None) 1 LEVEL_DELAYS
               = ([6], [(''LevelCapture'', ''Mid Level'', ''Val 1'', 6)])"
    by (simp add: LEVEL_DELAYS_def read_input_float_def decode_float_def t n)
  have ref: "actual_reference (\<lambda>reg order s. (None, s)) ''MID'' ''AN1_LEGACY'' () = (0, ())"
    by (simp add: actual_reference_def AN1_ACTUAL_REF_def u)
  show ?thesis
    using level_percent_error [OF reads _ ref] by (simp add: t)
qed

subsection \<open>Range cache\<close>

text \<open>
  Claim C8. For every lookup \<open>get_float_holding(reg, order)\<close> with a freshness window
  \<open>ttl \<ge> 0\<close> (5 seconds by default): if the cache holds an entry for \<open>(reg, order)\<close> whose age
  \<open>now - ts\<close> is at most \<open>ttl\<close>, its value is returned and the device is not read (cache and
  client state are as before, whatever a read would have returned); otherwise the device
  is read, and on success the decoded value is stored with the time \<open>now\<close> and returned,
  while a failed read (no answer, or fewer than two registers) returns \<open>None\<close> and leaves
  the cache as it was; hence a returned value is always the value of an entry no older
  than the freshness window.
\<close>

theorem get_float_holding_contract:
  assumes ttl: "0 \<le> ttl"
  shows "(cache (reg, order) = Some (ts, v) \<longrightarrow> now - ts \<le> ttl \<longrightarrow>
            get_float_holding unpack_f ttl rd now reg order (cache, m) = (Some v, cache, m))
       \<and> ((\<forall>ts v. cache (reg, order) = Some (ts, v) \<longrightarrow> \<not> now - ts \<le> ttl) \<longrightarrow>
            get_float_holding unpack_f ttl rd now reg order (cache, m) =
              (case rd reg 2 m of
                 (None, m') \<Rightarrow> (None, cache, m')
               | (Some rs, m') \<Rightarrow>
                   if length rs < 2 then (None, cache, m')
                   else (Some (decode_float unpack_f (rs ! 0) (rs ! 1) order),
                         cache((reg, order) \<mapsto> (now, decode_float unpack_f (rs ! 0) (rs ! 1) order)), m')))
       \<and> (\<forall>x cache' m'. get_float_holding unpack_f ttl rd now reg order (cache, m) = (Some x, cache', m') \<longrightarrow>
             (\<exists>ts. cache' (reg, order) = Some (ts, x) \<and> now - ts \<le> ttl))"
proof (intro conjI impI allI)
  assume "cache (reg, order) = Some (ts, v)" "now - ts \<le> ttl"
  then show "get_float_holding unpack_f ttl rd now reg order (cache, m) = (Some v, cache, m)"
    by (simp add: get_float_holding_def RANGE_ADDR_OFFSET_def)
next
  assume stale: "\<forall>ts v. cache (reg, order) = Some (ts, v) \<longrightarrow> \<not> now - ts \<le> ttl"
  have hit: "(case cache (reg, order) of None \<Rightarrow> None
              | Some (ts, val) \<Rightarrow> if now - ts \<le> ttl then Some val else None) = None"
    using stale by (cases "cache (reg, order)") auto
  show "get_float_holding unpack_f ttl rd now reg order (cache, m) =
              (case rd reg 2 m of
                 (None, m') \<Rightarrow> (None, cache, m')
               | (Some rs, m') \<Rightarrow>
                   if length rs < 2 then (None, cache, m')
                   else (Some (decode_float unpack_f (rs ! 0) (rs ! 1) order),
                         cache((reg, order) \<mapsto> (now, decode_float unpack_f (rs ! 0) (rs ! 1) order)), m'))"
    using hit
    by (auto simp add: get_float_holding_def RANGE_ADDR_OFFSET_def Let_def split: prod.splits option.splits)
next
  fix x cache' m'
  assume r: "get_float_holding unpack_f ttl rd now reg order (cache, m) = (Some x, cache', m')"
  show "\<exists>ts. cache' (reg, order) = Some (ts, x) \<and> now - ts \<le> ttl"
    using r ttl
    by (auto simp add: get_float_holding_def RANGE_ADDR_OFFSET_def Let_def
             split: prod.splits option.splits if_splits)
qed

text \<open>
  The theorem on a cache that holds 42 for register 100, stored at time 10, with a window
  of 5 seconds: a lookup at time 12 is answered from the cache without a read (the read
  counter stays 0); at time 20 a failed read returns \<open>None\<close> and keeps the entry; at time
  20 a successful read replaces it.
\<close>

theorem get_float_holding_contract_witness:
  "get_float_holding (\<lambda>bs. 9) 5 (\<lambda>a c m. (None, Suc m)) 12 100 ''CDAB'' ([(100, ''CDAB'') \<mapsto> (10, 42)], 0 :: nat)
     = (Some 42, [(100, ''CDAB'') \<mapsto> (10, 42)], 0)
   \<and> get_float_holding (\<lambda>bs. 9) 5 (\<lambda>a c m. (None, Suc m)) 20 100 ''CDAB'' ([(100, ''CDAB'') \<mapsto> (10, 42)], 0 :: nat)
     = (None, [(100, ''CDAB'') \<mapsto> (10, 42)], 1)
   \<and> get_float_holding (\<lambda>bs. 9) 5 (\<lambda>a c m. (Some [1, 2], Suc m)) 20 100 ''CDAB'' ([(100, ''CDAB'') \<mapsto> (10, 42)], 0 :: nat)
     = (Some 9, [(100, ''CDAB'') \<mapsto> (20, 9)], 1)"
proof -
  have ttl: "(0 :: real) \<le> 5" by simp
  have a: "get_float_holding (\<lambda>bs. 9) 5 (\<lambda>a c m. (None, Suc m)) 12 100 ''CDAB'' ([(100, ''CDAB'') \<mapsto> (10, 42)], 0 :: nat)
     = (Some 42, [(100, ''CDAB'') \<mapsto> (10, 42)], 0)"
    using get_float_holding_contract [OF ttl, where cache = "[(100, ''CDAB'') \<mapsto> (10, 42)]" and reg = 100
        and order = "''CDAB''" and ts = 10 and v = 42 and now = 12 and m = "0 :: nat"
        and rd = "(\<lambda>a c m. (None, Suc m))" and unpack_f = "(\<lambda>bs. 9)"]
    by simp
  have b: "get_float_holding (\<lambda>bs. 9) 5 (\<lambda>a c m. (None, Suc m)) 20 100 ''CDAB'' ([(100, ''CDAB'') \<mapsto> (10, 42)], 0 :: nat)
     = (None, [(100, ''CDAB'') \<mapsto> (10, 42)], 1)"
    using get_float_holding_contract [OF ttl, where cache = "[(100, ''CDAB'') \<mapsto> (10, 42)]" and reg = 100
        and order = "''CDAB''" and now = 20 and m = "0 :: nat"
        and rd = "(\<lambda>a c m. (None, Suc m))" and unpack_f = "(\<lambda>bs. 9)"]
    by simp
  have c: "get_float_holding (\<lambda>bs. 9) 5 (\<lambda>a c m. (Some [1, 2], Suc m)) 20 100 ''CDAB'' ([(100, ''CDAB'') \<mapsto> (10, 42)], 0 :: nat)
     = (Some 9, [(100, ''CDAB'') \<mapsto> (20, 9)], 1)"
    using get_float_holding_contract [OF ttl, where cache = "[(100, ''CDAB'') \<mapsto> (10, 42)]" and reg = 100
        and order = "''CDAB''" and now = 20 and m = "0 :: nat"
        and rd = "(\<lambda>a c m. (Some [1, 2], Suc m))" and unpack_f = "(\<lambda>bs. 9)"]
    by (simp add: decode_float_def)
  show ?thesis using a b c by simp
qed

subsection \<open>Historian\<close>

text \<open>Facts about the helpers of a tick.\<close>

lemma read_flow_total: "\<exists>flow. read_flow unpack_f regs = Inr flow"
  by (simp add: read_flow_def read_block_input_def FLOW_REGS_def split: option.splits)

lemma read_block_input_length:
  "read_block_input unpack_f regs reg_map = Inr (Some vs) \<Longrightarrow> length vs = length reg_map"
  by (auto simp add: read_block_input_def split: if_splits option.splits)

lemma ex_less_Suc_split: "(\<exists>i < Suc n. P i) = (P 0 \<or> (\<exists>i < n. P (Suc i)))"
  by (metis less_Suc_eq_0_disj)

lemma invalid_min_only_Some:
  "invalid_min_only mm mins idx (map Some vs) =
     Inr (\<exists>i < length vs. mm (idx + i) \<noteq> None \<and> (\<exists>mn. mins (idx + i) = Some mn \<and> vs ! i < mn))"
proof (induction vs arbitrary: idx)
  case Nil
  then show ?case by simp
next
  case (Cons v vs)
  let ?P = "\<lambda>i. mm (idx + i) \<noteq> None \<and> (\<exists>mn. mins (idx + i) = Some mn \<and> (v # vs) ! i < mn)"
  have rest: "invalid_min_only mm mins (Suc idx) (map Some vs) = Inr (\<exists>i < length vs. ?P (Suc i))"
    by (simp add: Cons.IH)
  have goal: "(\<exists>i < length (v # vs). ?P i) = (?P 0 \<or> (\<exists>i < length vs. ?P (Suc i)))"
    using ex_less_Suc_split [of "length vs" ?P] by simp
  show ?case
    unfolding goal
    by (cases "mm idx"; cases "mins idx") (auto simp add: rest)
qed

lemma is_calibration_idle:
  "fst (is_calibration rbs) = ''ANALYZER IDLE'' \<longleftrightarrow> (\<forall>addr \<in> {1201, 1202, 1203, 1204}. rbs addr \<noteq> Some True)"
  by (simp add: is_calibration_def CAL_MODES_def)

lemma is_calibration_idle_flag:
  "fst (is_calibration rbs) = ''ANALYZER IDLE'' \<Longrightarrow> snd (is_calibration rbs) = 0"
  by (simp add: is_calibration_def CAL_MODES_def split: if_splits)

lemma is_calibration_first:
  assumes "(addr, nm) \<in> set CAL_MODES" "rbs addr = Some True"
    and "\<forall>(a', nm') \<in> set CAL_MODES. a' < addr \<longrightarrow> rbs a' \<noteq> Some True"
  shows "is_calibration rbs = (nm, 1) \<and> nm \<noteq> ''ANALYZER IDLE''"
proof -
  have "(addr = 1201 \<and> nm = ''N2O ZERO'') \<or> (addr = 1202 \<and> nm = ''N2O SPAN'') \<or>
        (addr = 1203 \<and> nm = ''NO SPAN'') \<or> (addr = 1204 \<and> nm = ''O2 SPAN'')"
    using assms(1) by (simp add: CAL_MODES_def)
  then show ?thesis
    using assms(2,3)
    by (elim disjE conjE) (simp_all add: is_calibration_def CAL_MODES_def)
qed

lemma historian_tick_cases:
  assumes flow: "read_flow unpack_f (flow_regs obs) = Inr flow"
    and live: "read_block_input unpack_f (an_regs obs) (live_regs h) = Inr live"
    and len: "length (live_regs h) = val_count h \<or> fst (is_calibration (status_bit obs)) \<noteq> ''ANALYZER IDLE''"
  shows "historian_tick unpack_f h obs =
     (case live of
        None \<Rightarrow> (h, Some (mk_row h (last_good h) flow ''ANALYZER OFFLINE'' (level_mode (status_bit obs)) 0
                            (plant_status (Some flow))))
      | Some vs \<Rightarrow>
          if fst (is_calibration (status_bit obs)) \<noteq> ''ANALYZER IDLE''
          then (h, Some (mk_row h (last_good h) flow (fst (is_calibration (status_bit obs)))
                           (level_mode (status_bit obs)) (snd (is_calibration (status_bit obs)))
                           (plant_status (Some flow))))
          else if (\<exists>i < length vs. min_map h (Suc i) \<noteq> None \<and>
                     (\<exists>mn. min_float obs (Suc i) = Some mn \<and> vs ! i < mn))
          then (h, Some (mk_row h (map Some vs) flow ''ANALYZER INVALID'' (level_mode (status_bit obs)) 0
                           (plant_status (Some flow))))
          else (h\<lparr>last_good := map Some vs\<rparr>,
                Some (mk_row h (map Some vs) flow ''ANALYZER IDLE'' (level_mode (status_bit obs)) 0
                        (plant_status (Some flow)))))"
proof -
  obtain m c where ic: "is_calibration (status_bit obs) = (m, c)"
    by (cases "is_calibration (status_bit obs)")
  show ?thesis
  proof (cases live)
    case None
    then show ?thesis
      using flow live by (simp add: historian_tick_def historian_try_def Let_def ic)
  next
    case (Some vs)
    show ?thesis
    proof (cases "m = ''ANALYZER IDLE''")
      case False
      then show ?thesis
        using flow live Some
        by (simp add: historian_tick_def historian_try_def Let_def ic)
    next
      case True
      then have n: "val_count h = length vs"
        using len live Some read_block_input_length ic by fastforce
      have flag: "c = 0"
        using True is_calibration_idle_flag [of "status_bit obs"] ic by simp
      define B where "B = (\<exists>i < length vs. min_map h (Suc i) \<noteq> None \<and>
                     (\<exists>mn. min_float obs (Suc i) = Some mn \<and> vs ! i < mn))"
      have inv: "invalid_min_only (min_map h) (min_float obs) (Suc 0) (map Some vs) = Inr B"
        unfolding B_def by (simp add: invalid_min_only_Some)
      have "historian_tick unpack_f h obs =
              (if B then (h, Some (mk_row h (map Some vs) flow ''ANALYZER INVALID'' (level_mode (status_bit obs)) 0
                           (plant_status (Some flow))))
               else (h\<lparr>last_good := map Some vs\<rparr>,
                     Some (mk_row h (map Some vs) flow ''ANALYZER IDLE'' (level_mode (status_bit obs)) 0
                        (plant_status (Some flow)))))"
        using flow live Some True flag
        by (cases B) (simp_all add: historian_tick_def historian_try_def Let_def ic n inv)
      then show ?thesis
        using Some True ic unfolding B_def by simp
    qed
  qed
qed

text \<open>
  Claim C2. For every Historian tick (of a historian whose register map has \<open>val_count\<close>
  entries, as both historians of the program have): \<open>last_good\<close> becomes exactly the
  values just read when the live read succeeded, no calibration trigger bit reads true and
  no value is below the minimum that the cache returned for its channel; on every other
  tick \<open>last_good\<close> is unchanged. Every tick emits a row; after a failed read its mode is
  \<open>ANALYZER OFFLINE\<close> and its values are the unchanged last-known-good; under an active
  calibration its values are the unchanged last-known-good; with a value below its
  minimum its mode is \<open>ANALYZER INVALID\<close>.
\<close>

theorem historian_last_good:
  assumes live: "read_block_input unpack_f (an_regs obs) (live_regs h) = Inr live"
    and len: "length (live_regs h) = val_count h"
  shows "last_good (fst (historian_tick unpack_f h obs)) =
           (if live \<noteq> None
               \<and> (\<forall>addr \<in> {1201, 1202, 1203, 1204}. status_bit obs addr \<noteq> Some True)
               \<and> \<not> (\<exists>i < length (the live). min_map h (Suc i) \<noteq> None \<and>
                        (\<exists>mn. min_float obs (Suc i) = Some mn \<and> the live ! i < mn))
            then map Some (the live) else last_good h)
       \<and> (\<exists>r. snd (historian_tick unpack_f h obs) = Some r
            \<and> (live = None \<longrightarrow>
                  row_analyzer_mode r = ''ANALYZER OFFLINE''
                  \<and> row_vals r = take 5 (last_good h @ replicate 5 None))
            \<and> (live \<noteq> None \<and> (\<exists>addr \<in> {1201, 1202, 1203, 1204}. status_bit obs addr = Some True) \<longrightarrow>
                  row_vals r = take 5 (last_good h @ replicate 5 None))
            \<and> (live \<noteq> None \<and> (\<forall>addr \<in> {1201, 1202, 1203, 1204}. status_bit obs addr \<noteq> Some True)
                  \<and> (\<exists>i < length (the live). min_map h (Suc i) \<noteq> None \<and>
                        (\<exists>mn. min_float obs (Suc i) = Some mn \<and> the live ! i < mn)) \<longrightarrow>
                  row_analyzer_mode r = ''ANALYZER INVALID''))"
proof -
  obtain flow where flow: "read_flow unpack_f (flow_regs obs) = Inr flow"
    using read_flow_total by blast
  define idle where "idle = (\<forall>addr \<in> {1201, 1202, 1203, 1204 :: int}. status_bit obs addr \<noteq> Some True)"
  have idle: "fst (is_calibration (status_bit obs)) = ''ANALYZER IDLE'' \<longleftrightarrow> idle"
    unfolding idle_def by (rule is_calibration_idle)
  have active: "(\<exists>addr \<in> {1201, 1202, 1203, 1204 :: int}. status_bit obs addr = Some True) \<longleftrightarrow> \<not> idle"
    unfolding idle_def by blast
  note tick = historian_tick_cases [OF flow live disjI1 [OF len]]
  show ?thesis
  proof (cases live)
    case None
    then show ?thesis
      using tick by (simp add: mk_row_def)
  next
    case (Some vs)
    define B where "B = (\<exists>i < length vs. min_map h (Suc i) \<noteq> None \<and>
                     (\<exists>mn. min_float obs (Suc i) = Some mn \<and> vs ! i < mn))"
    have t: "historian_tick unpack_f h obs =
       (if \<not> idle
          then (h, Some (mk_row h (last_good h) flow (fst (is_calibration (status_bit obs)))
                           (level_mode (status_bit obs)) (snd (is_calibration (status_bit obs)))
                           (plant_status (Some flow))))
          else if B
          then (h, Some (mk_row h (map Some vs) flow ''ANALYZER INVALID'' (level_mode (status_bit obs)) 0
                           (plant_status (Some flow))))
          else (h\<lparr>last_good := map Some vs\<rparr>,
                Some (mk_row h (map Some vs) flow ''ANALYZER IDLE'' (level_mode (status_bit obs)) 0
                        (plant_status (Some flow)))))"
      using tick Some idle unfolding B_def by simp
    have goal: "last_good (fst (historian_tick unpack_f h obs)) =
           (if idle \<and> \<not> B then map Some vs else last_good h)
       \<and> (\<exists>r. snd (historian_tick unpack_f h obs) = Some r
            \<and> (\<not> idle \<longrightarrow> row_vals r = take 5 (last_good h @ replicate 5 None))
            \<and> (idle \<and> B \<longrightarrow> row_analyzer_mode r = ''ANALYZER INVALID''))"
      unfolding t by (cases idle; cases B) (simp_all add: mk_row_def)
    show ?thesis
      unfolding Some option.sel
      unfolding B_def [symmetric] active idle_def [symmetric]
      using goal by simp
  qed
qed

text \<open>
  The theorem on the historian of analyzer 2, whose two channels are read as 5.0: with
  minimum 10.0 the sample is invalid and \<open>last_good\<close> stays \<open>[0.0, 0.0]\<close>; with minimum 1.0
  the sample is adopted; after a failed read \<open>last_good\<close> stays as it was.
\<close>

theorem historian_last_good_witness:
  "last_good (fst (historian_tick (\<lambda>bs. 5) (Historian AN2_LIVE_REGS AN2_MIN_MAP ''Value_1'' 2)
      \<lparr>flow_regs = None, status_bit = (\<lambda>a. Some False), an_regs = Some [0, 0, 0, 0],
       min_float = (\<lambda>i. Some 10)\<rparr>)) = [Some 0, Some 0]
   \<and> last_good (fst (historian_tick (\<lambda>bs. 5) (Historian AN2_LIVE_REGS AN2_MIN_MAP ''Value_1'' 2)
      \<lparr>flow_regs = None, status_bit = (\<lambda>a. Some False), an_regs = Some [0, 0, 0, 0],
       min_float = (\<lambda>i. Some 1)\<rparr>)) = [Some 5, Some 5]
   \<and> last_good (fst (historian_tick (\<lambda>bs. 5) (Historian AN2_LIVE_REGS AN2_MIN_MAP ''Value_1'' 2)
      \<lparr>flow_regs = None, status_bit = (\<lambda>a. Some False), an_regs = None,
       min_float = (\<lambda>i. Some 1)\<rparr>)) = [Some 0, Some 0]"
proof -
  let ?h = "Historian AN2_LIVE_REGS AN2_MIN_MAP ''Value_1'' 2"
  have len: "length (live_regs ?h) = val_count ?h"
    by (simp add: Historian_def AN2_LIVE_REGS_def)
  have live: "read_block_input (\<lambda>bs. 5) (Some [0, 0, 0, 0]) (live_regs ?h) = Inr (Some [5, 5])"
    by (simp add: read_block_input_def Historian_def AN2_LIVE_REGS_def decode_float_def)
  have off: "read_block_input (\<lambda>bs. 5) None (live_regs ?h) = Inr None"
    by (simp add: read_block_input_def Historian_def AN2_LIVE_REGS_def)
  have two: "\<And>P. (\<exists>i < Suc (Suc 0). P i) = (P 0 \<or> P (Suc 0))"
    by (auto simp add: less_Suc_eq)
  have mm: "min_map ?h (Suc 0) \<noteq> None" "last_good ?h = [Some 0, Some 0]"
    by (simp_all add: Historian_def AN2_MIN_MAP_def numeral_2_eq_2)
  have a: "last_good (fst (historian_tick (\<lambda>bs. 5) ?h
      \<lparr>flow_regs = None, status_bit = (\<lambda>a. Some False), an_regs = Some [0, 0, 0, 0],
       min_float = (\<lambda>i. Some 10)\<rparr>)) = [Some 0, Some 0]"
    using historian_last_good [where h = ?h and unpack_f = "(\<lambda>bs. 5)" and live = "Some [5, 5]"
        and obs = "\<lparr>flow_regs = None, status_bit = (\<lambda>a. Some False), an_regs = Some [0, 0, 0, 0],
                   min_float = (\<lambda>i. Some 10)\<rparr>"] live len mm
    by (simp add: two)
  have b: "last_good (fst (historian_tick (\<lambda>bs. 5) ?h
      \<lparr>flow_regs = None, status_bit = (\<lambda>a. Some False), an_regs = Some [0, 0, 0, 0],
       min_float = (\<lambda>i. Some 1)\<rparr>)) = [Some 5, Some 5]"
    using historian_last_good [where h = ?h and unpack_f = "(\<lambda>bs. 5)" and live = "Some [5, 5]"
        and obs = "\<lparr>flow_regs = None, status_bit = (\<lambda>a. Some False), an_regs = Some [0, 0, 0, 0],
                   min_float = (\<lambda>i. Some 1)\<rparr>"] live len mm
    by (simp add: two)
  have c: "last_good (fst (historian_tick (\<lambda>bs. 5) ?h
      \<lparr>flow_regs = None, status_bit = (\<lambda>a. Some False), an_regs = None,
       min_float = (\<lambda>i. Some 1)\<rparr>)) = [Some 0, Some 0]"
    using historian_last_good [where h = ?h and unpack_f = "(\<lambda>bs. 5)" and live = None
        and obs = "\<lparr>flow_regs = None, status_bit = (\<lambda>a. Some False), an_regs = None,
                   min_float = (\<lambda>i. Some 1)\<rparr>"] off len mm
    by simp
  show ?thesis using a b c by simp
qed

text \<open>
  Claim C4 as stated fails: on a tick on which the calibration trigger 1201 reads true but
  the read of the analyzer fails, the row has mode \<open>ANALYZER OFFLINE\<close> and calibration flag
  0, not the calibration's name and flag 1.
\<close>

theorem historian_calibration_counterexample:
  "status_bit \<lparr>flow_regs = None, status_bit = (\<lambda>a. if a = 1201 then Some True else Some False),
               an_regs = None, min_float = (\<lambda>i. None)\<rparr> 1201 = Some True
   \<and> snd (historian_tick (\<lambda>bs. 0) (Historian AN1_LIVE_REGS AN1_MIN_MAP ''Value'' 3)
        \<lparr>flow_regs = None, status_bit = (\<lambda>a. if a = 1201 then Some True else Some False),
         an_regs = None, min_float = (\<lambda>i. None)\<rparr>)
     = Some \<lparr>row_table = ''Value'', row_vals = [Some 0, Some 0, Some 0, None, None], row_flow = 0,
             row_analyzer_mode = ''ANALYZER OFFLINE'', row_level_mode = ''LEVEL IDLE'',
             row_is_calibration = 0, row_plant_status = ''PLANT STOP''\<rparr>"
  by (simp add: historian_tick_def historian_try_def read_flow_def read_block_input_def FLOW_REGS_def
        Historian_def AN1_LIVE_REGS_def is_calibration_def CAL_MODES_def level_mode_def LEVEL_DI_def
        plant_status_def FLOW_STOP_THRESHOLD_def mk_row_def numeral_3_eq_3)

text \<open>
  Claim C4, amended. For every Historian tick on which at least one calibration trigger bit
  reads true, the row's values are frozen to the last-known-good values (the live values
  are not emitted) and \<open>last_good\<close> is unchanged; when the live read of the analyzer
  succeeded, the mode is the name of the first active calibration in the order 1201 to
  1204 and the calibration flag is 1; when it failed, the mode is \<open>ANALYZER OFFLINE\<close> and
  the flag is 0.
\<close>

theorem historian_calibration_freeze:
  assumes live: "read_block_input unpack_f (an_regs obs) (live_regs h) = Inr live"
    and trig: "(addr, nm) \<in> set CAL_MODES" "status_bit obs addr = Some True"
    and first: "\<forall>(a', nm') \<in> set CAL_MODES. a' < addr \<longrightarrow> status_bit obs a' \<noteq> Some True"
  shows "\<exists>r. historian_tick unpack_f h obs = (h, Some r)
           \<and> row_vals r = take 5 (last_good h @ replicate 5 None)
           \<and> (if live = None
               then row_analyzer_mode r = ''ANALYZER OFFLINE'' \<and> row_is_calibration r = 0
               else row_analyzer_mode r = nm \<and> row_is_calibration r = 1)"
proof -
  obtain flow where flow: "read_flow unpack_f (flow_regs obs) = Inr flow"
    using read_flow_total by blast
  have ic: "is_calibration (status_bit obs) = (nm, 1)" "nm \<noteq> ''ANALYZER IDLE''"
    using is_calibration_first [OF trig first] by simp_all
  have "fst (is_calibration (status_bit obs)) \<noteq> ''ANALYZER IDLE''"
    using ic by simp
  note tick = historian_tick_cases [OF flow live disjI2 [OF this]]
  show ?thesis
    using tick ic by (cases live) (simp_all add: mk_row_def)
qed

text \<open>
  The theorem on the historian of analyzer 1 with last-known-good values 1, 2, 3, on a
  tick on which the triggers 1202 and 1204 read true and the analyzer answers.
\<close>

theorem historian_calibration_freeze_witness:
  "(\<exists>r. historian_tick (\<lambda>bs. 5) ((Historian AN1_LIVE_REGS AN1_MIN_MAP ''Value'' 3)\<lparr>last_good := [Some 1, Some 2, Some 3]\<rparr>)
        \<lparr>flow_regs = None, status_bit = (\<lambda>a. if a = 1202 \<or> a = 1204 then Some True else Some False),
         an_regs = Some [0, 0, 0, 0, 0, 0, 0, 0], min_float = (\<lambda>i. None)\<rparr>
      = ((Historian AN1_LIVE_REGS AN1_MIN_MAP ''Value'' 3)\<lparr>last_good := [Some 1, Some 2, Some 3]\<rparr>, Some r)
      \<and> row_vals r = [Some 1, Some 2, Some 3, None, None]
      \<and> row_analyzer_mode r = ''N2O SPAN'' \<and> row_is_calibration r = 1)"
proof -
  let ?h = "(Historian AN1_LIVE_REGS AN1_MIN_MAP ''Value'' 3)\<lparr>last_good := [Some 1, Some 2, Some 3]\<rparr>"
  let ?obs = "\<lparr>flow_regs = None, status_bit = (\<lambda>a. if a = 1202 \<or> a = 1204 then Some True else Some False),
         an_regs = Some [0, 0, 0, 0, 0, 0, 0, 0], min_float = (\<lambda>i. None)\<rparr>"
  have live: "read_block_input (\<lambda>bs. 5) (an_regs ?obs) (live_regs ?h) = Inr (Some [5, 5, 5])"
    by (simp add: read_block_input_def Historian_def AN1_LIVE_REGS_def decode_float_def)
  have trig: "(1202, ''N2O SPAN'') \<in> set CAL_MODES" "status_bit ?obs 1202 = Some True"
    by (simp_all add: CAL_MODES_def)
  have first: "\<forall>(a', nm') \<in> set CAL_MODES. a' < 1202 \<longrightarrow> status_bit ?obs a' \<noteq> Some True"
    by (simp add: CAL_MODES_def)
  show ?thesis
    using historian_calibration_freeze [OF live trig first] by (simp add: numeral_2_eq_2)
qed

subsection \<open>Shared Modbus client\<close>

lemma mb_ensure_failed:
  assumes "mb_ensure t0 outcome st = (False, st1)" "connects st1 \<noteq> connects st"
  shows "client st1 \<noteq> Some True \<and> last_fail st1 = t0"
  using assms
  by (auto simp add: mb_ensure_def mb_connect_def Let_def split: if_splits connect_outcome.splits)

lemma mb_read_fail_fast:
  assumes "client st \<noteq> Some True" "t_ensure obs - last_fail st < 1.5"
  shows "mb_read obs address count st = (None, st)"
  using assms by (simp add: mb_read_def mb_ensure_def)

lemma mb_read_connected:
  assumes "client st = Some True"
  shows "connects (snd (mb_read obs address count st)) = connects st"
  using assms by (simp add: mb_read_def mb_ensure_def Let_def split: reply.splits)

lemma mb_read_exception:
  assumes "mb_ensure (t_ensure obs) (conn obs) st = (True, st1)" "answer obs address count = RequestRaises"
  shows "mb_read obs address count st =
           (None, st1\<lparr>client := Some (still_connected obs), last_fail := t_except obs\<rparr>)"
  using assms by (simp add: mb_read_def)

lemma mb_read_result:
  "fst (mb_read obs address count st) = None \<or>
   answer obs address count = Reply (the (fst (mb_read obs address count st)))"
  by (simp add: mb_read_def Let_def split: prod.splits reply.splits)

lemma mb_read_reconnects:
  assumes "client st \<noteq> Some True" "\<not> t_ensure obs - last_fail st < 1.5"
  shows "connects (snd (mb_read obs address count st)) = Suc (connects st)"
  using assms
  by (simp add: mb_read_def mb_ensure_def mb_connect_def Let_def
           split: connect_outcome.splits reply.splits)

text \<open>
  Claim C7 as stated fails in its second part: an exception during a read does not
  invalidate the connection, and the next call does not reconnect. With a client that holds
  an open connection, a read at time 10 raises and returns \<open>None\<close>; the next read, half a
  second later, makes no connection attempt (\<open>connects\<close> stays 1): it sends its request on
  the old client if that client still reports itself connected, and fails fast if it does
  not.
\<close>

theorem shared_modbus_exception_counterexample:
  "fst (read_holding_regs
          \<lparr>t_ensure = 10, conn = ConnectTrue, answer = (\<lambda>a c. RequestRaises), still_connected = True, t_except = 10\<rparr>
          100 2 \<lparr>client = Some True, last_fail = 0, connects = 1\<rparr>) = None
   \<and> read_holding_regs
          \<lparr>t_ensure = 10.5, conn = ConnectTrue, answer = (\<lambda>a c. Reply [7, 8]), still_connected = True, t_except = 10.5\<rparr>
          100 2
          (snd (read_holding_regs
             \<lparr>t_ensure = 10, conn = ConnectTrue, answer = (\<lambda>a c. RequestRaises), still_connected = True, t_except = 10\<rparr>
             100 2 \<lparr>client = Some True, last_fail = 0, connects = 1\<rparr>))
       = (Some [7, 8], \<lparr>client = Some True, last_fail = 10, connects = 1\<rparr>)
   \<and> read_holding_regs
          \<lparr>t_ensure = 10.5, conn = ConnectTrue, answer = (\<lambda>a c. Reply [7, 8]), still_connected = True, t_except = 10.5\<rparr>
          100 2
          (snd (read_holding_regs
             \<lparr>t_ensure = 10, conn = ConnectTrue, answer = (\<lambda>a c. RequestRaises), still_connected = False, t_except = 10\<rparr>
             100 2 \<lparr>client = Some True, last_fail = 0, connects = 1\<rparr>))
       = (None, \<lparr>client = Some False, last_fail = 10, connects = 1\<rparr>)"
  by (simp add: read_holding_regs_def mb_read_def mb_ensure_def)

text \<open>
  Claim C7, amended. The three read operations have the same body. (1) After a failed
  connection attempt at time \<open>t0\<close>, a read at a time less than 1.5 seconds after \<open>t0\<close>
  returns the failure result and leaves the state as it was, so no connection is attempted
  and the same holds for the next read in the window. (2) When the request of a read
  raises, the call returns the failure result and records the time of the exception in
  \<open>last_fail\<close>; the client object is kept, and the next call attempts a connection only if
  the client no longer reports itself connected and at least 1.5 seconds have passed since
  the exception. (3) Every read returns: its result is the failure result or the values the
  device replied.
\<close>

theorem shared_modbus_reads:
  "read_discrete = mb_read \<and> read_input_regs = mb_read \<and> read_holding_regs = mb_read
   \<and> (mb_ensure t0 outcome st = (False, st1) \<longrightarrow> connects st1 \<noteq> connects st \<longrightarrow>
        t_ensure obs' - t0 < 1.5 \<longrightarrow> mb_read obs' address' count' st1 = (None, st1))
   \<and> (mb_ensure (t_ensure obs) (conn obs) st = (True, st2) \<longrightarrow> answer obs address count = RequestRaises \<longrightarrow>
        mb_read obs address count st =
           (None, st2\<lparr>client := Some (still_connected obs), last_fail := t_except obs\<rparr>)
        \<and> connects (snd (mb_read obs' address' count' (snd (mb_read obs address count st)))) =
             (if still_connected obs \<or> t_ensure obs' - t_except obs < 1.5
              then connects st2 else Suc (connects st2)))
   \<and> (fst (mb_read obs address count st) = None \<or>
        answer obs address count = Reply (the (fst (mb_read obs address count st))))"
proof (intro conjI impI)
  show "read_discrete = mb_read" by (intro ext) (simp add: read_discrete_def)
  show "read_input_regs = mb_read" by (intro ext) (simp add: read_input_regs_def)
  show "read_holding_regs = mb_read" by (intro ext) (simp add: read_holding_regs_def)
next
  assume "mb_ensure t0 outcome st = (False, st1)" "connects st1 \<noteq> connects st" "t_ensure obs' - t0 < 1.5"
  then show "mb_read obs' address' count' st1 = (None, st1)"
    using mb_ensure_failed [of t0 outcome st st1] mb_read_fail_fast [of st1 obs'] by simp
next
  assume a: "mb_ensure (t_ensure obs) (conn obs) st = (True, st2)" "answer obs address count = RequestRaises"
  let ?st = "st2\<lparr>client := Some (still_connected obs), last_fail := t_except obs\<rparr>"
  show r: "mb_read obs address count st = (None, ?st)"
    using a by (rule mb_read_exception)
  show "connects (snd (mb_read obs' address' count' (snd (mb_read obs address count st)))) =
             (if still_connected obs \<or> t_ensure obs' - t_except obs < 1.5
              then connects st2 else Suc (connects st2))"
  proof (cases "still_connected obs")
    case True
    then show ?thesis
      using mb_read_connected [of ?st obs'] by (simp add: r)
  next
    case False
    show ?thesis
    proof (cases "t_ensure obs' - t_except obs < 1.5")
      case True
      then show ?thesis
        using False mb_read_fail_fast [of ?st obs'] by (simp add: r)
    next
      case far: False
      then show ?thesis
        using False mb_read_reconnects [of ?st obs'] by (simp add: r)
    qed
  qed
next
  show "fst (mb_read obs address count st) = None \<or>
        answer obs address count = Reply (the (fst (mb_read obs address count st)))"
    by (rule mb_read_result)
qed

text \<open>
  The theorem at a client whose first connection attempt failed at time 100, read again at
  time 101; and at a connected client whose request raises at time 13.
\<close>

theorem shared_modbus_reads_witness:
  "mb_read \<lparr>t_ensure = 101, conn = ConnectTrue, answer = (\<lambda>a c. Reply [7 :: register, 8]),
            still_connected = True, t_except = 101\<rparr> 100 2
       \<lparr>client = Some False, last_fail = 100, connects = 1\<rparr>
     = (None, \<lparr>client = Some False, last_fail = 100, connects = 1\<rparr>)
   \<and> mb_read \<lparr>t_ensure = 10, conn = ConnectTrue, answer = (\<lambda>a c. RequestRaises :: register list reply),
              still_connected = False, t_except = 13\<rparr> 100 2
       \<lparr>client = Some True, last_fail = 0, connects = 1\<rparr>
     = (None, \<lparr>client = Some False, last_fail = 13, connects = 1\<rparr>)"
proof -
  have e1: "mb_ensure 100 ConnectFalse SharedModbus = (False, \<lparr>client = Some False, last_fail = 100, connects = 1\<rparr>)"
    by (simp add: mb_ensure_def mb_connect_def SharedModbus_def)
  have e2: "mb_ensure 10 ConnectTrue \<lparr>client = Some True, last_fail = 0, connects = 1\<rparr>
              = (True, \<lparr>client = Some True, last_fail = 0, connects = 1\<rparr>)"
    by (simp add: mb_ensure_def)
  note p1 = shared_modbus_reads [where ?t0.0 = 100 and outcome = ConnectFalse and st = SharedModbus
        and ?st1.0 = "\<lparr>client = Some False, last_fail = 100, connects = 1\<rparr>"
        and obs' = "\<lparr>t_ensure = 101, conn = ConnectTrue, answer = (\<lambda>a c. Reply [7 :: register, 8]),
                    still_connected = True, t_except = 101\<rparr>"
        and address' = 100 and count' = 2,
        THEN conjunct2, THEN conjunct2, THEN conjunct2, THEN conjunct1, rule_format, OF e1]
  have a: "mb_read \<lparr>t_ensure = 101, conn = ConnectTrue, answer = (\<lambda>a c. Reply [7 :: register, 8]),
            still_connected = True, t_except = 101\<rparr> 100 2
       \<lparr>client = Some False, last_fail = 100, connects = 1\<rparr>
     = (None, \<lparr>client = Some False, last_fail = 100, connects = 1\<rparr>)"
    by (rule p1) (simp_all add: SharedModbus_def)
  note p2 = shared_modbus_reads [where st = "\<lparr>client = Some True, last_fail = 0, connects = 1\<rparr>"
        and ?st2.0 = "\<lparr>client = Some True, last_fail = 0, connects = 1\<rparr>"
        and obs = "\<lparr>t_ensure = 10, conn = ConnectTrue, answer = (\<lambda>a c. RequestRaises :: register list reply),
                   still_connected = False, t_except = 13\<rparr>"
        and address = 100 and count = 2,
        THEN conjunct2, THEN conjunct2, THEN conjunct2, THEN conjunct2, THEN conjunct1, rule_format,
        THEN conjunct1]
  have b: "mb_read \<lparr>t_ensure = 10, conn = ConnectTrue, answer = (\<lambda>a c. RequestRaises :: register list reply),
              still_connected = False, t_except = 13\<rparr> 100 2
       \<lparr>client = Some True, last_fail = 0, connects = 1\<rparr>
     = (None, \<lparr>client = Some False, last_fail = 13, connects = 1\<rparr>)"
    using p2 e2 by simp
  show ?thesis using a b by simp
qed

subsection \<open>SQL writer\<close>

lemma drain_take:
  "length batch \<le> 300 \<Longrightarrow>
   drain batch q = (batch @ take (300 - length batch) q, drop (300 - length batch) q)"
proof (induction batch q rule: drain.induct)
  case (1 batch q)
  show ?case
  proof (cases "length batch < 300")
    case False
    then show ?thesis using "1.prems" by (simp add: drain.simps [of batch])
  next
    case True
    show ?thesis
    proof (cases q)
      case Nil
      then show ?thesis using True by (simp add: drain.simps [of batch])
    next
      case (Cons x q')
      have "drain (batch @ [x]) q' =
              ((batch @ [x]) @ take (300 - length (batch @ [x])) q', drop (300 - length (batch @ [x])) q')"
        using "1.IH" [OF True Cons] True by simp
      moreover have "300 - length batch = Suc (300 - length (batch @ [x]))"
        using True by simp
      ultimately show ?thesis
        using True Cons by (simp add: drain.simps [of batch])
    qed
  qed
qed

lemma drain_first:
  "drain [item] q = (take 300 (item # q), drop 300 (item # q))"
proof -
  have "(300 :: nat) = Suc 299" by simp
  then show ?thesis
    using drain_take [of "[item]" q] by (simp del: One_nat_def)
qed

lemma execute_all_ok:
  "(\<forall>i < length b. ex (k + i) = None) \<Longrightarrow> execute_all ex k b = (map Execute b, None)"
proof (induction b arbitrary: k)
  case Nil
  then show ?case by simp
next
  case (Cons it its)
  have "ex k = None" using Cons.prems by force
  moreover have "\<forall>i < length its. ex (Suc k + i) = None"
    using Cons.prems by force
  ultimately show ?case
    using Cons.IH [of "Suc k"] by simp
qed

lemma execute_all_fails:
  "j < length b \<Longrightarrow> ex (k + j) = Some e \<Longrightarrow> (\<forall>i < j. ex (k + i) = None) \<Longrightarrow>
   execute_all ex k b = (map Execute (take j b), Some e)"
proof (induction b arbitrary: k j)
  case Nil
  then show ?case by simp
next
  case (Cons it its)
  show ?case
  proof (cases j)
    case 0
    then show ?thesis using Cons.prems by simp
  next
    case (Suc j')
    have "ex k = None" using Cons.prems Suc by force
    moreover have "j' < length its" "ex (Suc k + j') = Some e" "\<forall>i < j'. ex (Suc k + i) = None"
      using Cons.prems Suc by force+
    ultimately show ?thesis
      using Cons.IH [of j' "Suc k"] Suc by simp
  qed
qed


lemma writer_try_batch:
  assumes q: "queue w = item # q"
    and conn: "conn_open w \<or> connect_exc obs = None"
    and cur: "cursor_exc obs = None"
    and ex: "execute_all (execute_exc obs) 0 (take 300 (queue w)) = (calls, r)"
  shows "writer_try obs w =
           (\<lparr>conn_open = True, queue = drop 300 (queue w),
             sink_log = sink_log w @ (if conn_open w then [] else [SqlConnect]) @ Cursor # calls
                        @ (if r = None \<and> commit_exc obs = None then [Commit] else [])\<rparr>,
            if r = None then commit_exc obs else r)"
proof (cases "conn_open w")
  case True
  then show ?thesis
    using q cur ex
    by (cases r; cases "commit_exc obs") (simp_all add: writer_try_def drain_first)
next
  case False
  then show ?thesis
    using q cur ex conn
    by (cases r; cases "commit_exc obs") (simp_all add: writer_try_def drain_first)
qed

text \<open>
  Claim C9. For every iteration of \<open>SQLWriter.run\<close> that finds the queue non-empty, has a
  connection or gets one, and gets a cursor: the batch is the first 300 items of the queue
  or the whole queue if it is shorter, so it has at most 300 items, and these items leave
  the queue. When every \<open>execute\<close> and the \<open>commit\<close> return, the sink has seen the executes
  of the whole batch in order followed by one commit. When the sink fails (an \<open>execute\<close> or
  the \<open>commit\<close> raises \<open>pyodbc.Error\<close>), no commit is issued, the connection is closed and
  forgotten, the writer sleeps 5 seconds, and no item of the batch is put back on the
  queue; the iteration returns a state, that is, the loop goes on, and as the connection
  is forgotten the next iteration begins with \<open>sql_connect()\<close>.
\<close>

theorem writer_iteration_batch:
  assumes q: "queue w \<noteq> []"
    and conn: "conn_open w \<or> connect_exc obs = None"
    and cur: "cursor_exc obs = None"
  shows "length (take 300 (queue w)) \<le> 300
    \<and> ((\<forall>i < length (take 300 (queue w)). execute_exc obs i = None) \<and> commit_exc obs = None \<longrightarrow>
         writer_iteration obs w =
           \<lparr>conn_open = True, queue = drop 300 (queue w),
            sink_log = sink_log w @ (if conn_open w then [] else [SqlConnect])
                       @ Cursor # map Execute (take 300 (queue w)) @ [Commit]\<rparr>)
    \<and> (j < length (take 300 (queue w)) \<and> execute_exc obs j = Some PyodbcError
          \<and> (\<forall>i < j. execute_exc obs i = None) \<longrightarrow>
         writer_iteration obs w =
           \<lparr>conn_open = False, queue = drop 300 (queue w),
            sink_log = sink_log w @ (if conn_open w then [] else [SqlConnect])
                       @ Cursor # map Execute (take j (take 300 (queue w))) @ [Close, Sleep 5]\<rparr>)
    \<and> ((\<forall>i < length (take 300 (queue w)). execute_exc obs i = None) \<and> commit_exc obs = Some PyodbcError \<longrightarrow>
         writer_iteration obs w =
           \<lparr>conn_open = False, queue = drop 300 (queue w),
            sink_log = sink_log w @ (if conn_open w then [] else [SqlConnect])
                       @ Cursor # map Execute (take 300 (queue w)) @ [Close, Sleep 5]\<rparr>)"
proof -
  obtain item q' where q': "queue w = item # q'"
    using q by (cases "queue w") auto
  note wt = writer_try_batch [OF q' conn cur]
  have ok: "(\<forall>i < length (take 300 (queue w)). execute_exc obs i = None) \<Longrightarrow>
            execute_all (execute_exc obs) 0 (take 300 (queue w)) = (map Execute (take 300 (queue w)), None)"
    using execute_all_ok [of "take 300 (queue w)" "execute_exc obs" 0] by simp
  have bad: "j < length (take 300 (queue w)) \<Longrightarrow> execute_exc obs j = Some PyodbcError \<Longrightarrow>
             (\<forall>i < j. execute_exc obs i = None) \<Longrightarrow>
             execute_all (execute_exc obs) 0 (take 300 (queue w))
               = (map Execute (take j (take 300 (queue w))), Some PyodbcError)"
    using execute_all_fails [of j "take 300 (queue w)" "execute_exc obs" 0 PyodbcError] by simp
  show ?thesis
  proof (intro conjI impI)
    show "length (take 300 (queue w)) \<le> 300" by simp
  next
    assume a: "(\<forall>i < length (take 300 (queue w)). execute_exc obs i = None) \<and> commit_exc obs = None"
    show "writer_iteration obs w =
           \<lparr>conn_open = True, queue = drop 300 (queue w),
            sink_log = sink_log w @ (if conn_open w then [] else [SqlConnect])
                       @ Cursor # map Execute (take 300 (queue w)) @ [Commit]\<rparr>"
      using wt [OF ok] a by (simp add: writer_iteration_def)
  next
    assume a: "j < length (take 300 (queue w)) \<and> execute_exc obs j = Some PyodbcError
          \<and> (\<forall>i < j. execute_exc obs i = None)"
    show "writer_iteration obs w =
           \<lparr>conn_open = False, queue = drop 300 (queue w),
            sink_log = sink_log w @ (if conn_open w then [] else [SqlConnect])
                       @ Cursor # map Execute (take j (take 300 (queue w))) @ [Close, Sleep 5]\<rparr>"
      using wt [OF bad] a by (simp add: writer_iteration_def)
  next
    assume a: "(\<forall>i < length (take 300 (queue w)). execute_exc obs i = None) \<and> commit_exc obs = Some PyodbcError"
    show "writer_iteration obs w =
           \<lparr>conn_open = False, queue = drop 300 (queue w),
            sink_log = sink_log w @ (if conn_open w then [] else [SqlConnect])
                       @ Cursor # map Execute (take 300 (queue w)) @ [Close, Sleep 5]\<rparr>"
      using wt [OF ok] a by (simp add: writer_iteration_def)
  qed
qed

text \<open>
  The theorem on a queue of three items of which the second fails in the sink: the batch
  is dropped, the connection is closed, the writer sleeps; the next iteration reconnects
  and commits the next batch.
\<close>

theorem writer_iteration_batch_witness:
  "writer_iteration
      \<lparr>connect_exc = None, cursor_exc = None, execute_exc = (\<lambda>i. if i = 1 then Some PyodbcError else None),
       commit_exc = None\<rparr>
      \<lparr>conn_open = True, queue = [''a'', ''b'', ''c''], sink_log = []\<rparr>
     = \<lparr>conn_open = False, queue = [], sink_log = [Cursor, Execute ''a'', Close, Sleep 5]\<rparr>
   \<and> writer_iteration
      \<lparr>connect_exc = None, cursor_exc = None, execute_exc = (\<lambda>i. None), commit_exc = None\<rparr>
      \<lparr>conn_open = False, queue = [''d''], sink_log = [Cursor, Execute ''a'', Close, Sleep 5]\<rparr>
     = \<lparr>conn_open = True, queue = [],
        sink_log = [Cursor, Execute ''a'', Close, Sleep 5, SqlConnect, Cursor, Execute ''d'', Commit]\<rparr>"
proof -
  have a: "writer_iteration
      \<lparr>connect_exc = None, cursor_exc = None, execute_exc = (\<lambda>i. if i = 1 then Some PyodbcError else None),
       commit_exc = None\<rparr>
      \<lparr>conn_open = True, queue = [''a'', ''b'', ''c''], sink_log = []\<rparr>
     = \<lparr>conn_open = False, queue = [], sink_log = [Cursor, Execute ''a'', Close, Sleep 5]\<rparr>"
    using writer_iteration_batch [where w = "\<lparr>conn_open = True, queue = [''a'', ''b'', ''c''], sink_log = []\<rparr>"
        and obs = "\<lparr>connect_exc = None, cursor_exc = None,
                   execute_exc = (\<lambda>i. if i = 1 then Some PyodbcError else None), commit_exc = None\<rparr>"
        and j = 1]
    by simp
  have b: "writer_iteration
      \<lparr>connect_exc = None, cursor_exc = None, execute_exc = (\<lambda>i. None), commit_exc = None\<rparr>
      \<lparr>conn_open = False, queue = [''d''], sink_log = [Cursor, Execute ''a'', Close, Sleep 5]\<rparr>
     = \<lparr>conn_open = True, queue = [],
        sink_log = [Cursor, Execute ''a'', Close, Sleep 5, SqlConnect, Cursor, Execute ''d'', Commit]\<rparr>"
    using writer_iteration_batch [where w = "\<lparr>conn_open = False, queue = [''d''],
                                             sink_log = [Cursor, Execute ''a'', Close, Sleep 5]\<rparr>"
        and obs = "\<lparr>connect_exc = None, cursor_exc = None, execute_exc = (\<lambda>i. None), commit_exc = None\<rparr>"]
    by simp
  show ?thesis using a b by simp
qed

subsection \<open>Capture sessions\<close>

lemma capture_reads_three:
  "capture_reads unpack_f tbl level_name rd 1 LEVEL_DELAYS =
     (List.map_filter (\<lambda>i. read_input_float unpack_f (rd i) ''ABCD'') [1, 2, 3],
      List.map_filter (\<lambda>i. map_option (\<lambda>v. (tbl, level_name, ''Val '' @ str_nat i, v))
                                  (read_input_float unpack_f (rd i) ''ABCD'')) [1, 2, 3])"
proof -
  have n: "Suc (Suc 0) = 2" "Suc 2 = 3" by simp_all
  show ?thesis
    by (simp add: LEVEL_DELAYS_def List.map_filter_def n split: option.splits)
qed

text \<open>
  Claim C3 as stated fails, for both kinds of session. Calibration: the trigger 1202 reads
  true, false and true at three polls of the monitor, all within the stabilization delay
  of the one worker that the first poll started (the third poll starts none); the trigger
  went false before the delay had passed, yet the worker finds it true at its first poll
  after the delay and records a sample. Level: the level trigger 3 reads true at time 0,
  so that the monitor starts a capture thread for LOW, and false half a second later, long
  before the first delay of 120 seconds has passed; the thread goes on, and when its three
  reads of the analyzer succeed it puts three sample rows and the four summary rows on the
  queue.
\<close>

theorem capture_session_counterexample:
  "cm_threads (foldl cal_step CalMonitor [Poll 1202 (Some True), Poll 1202 (Some False), Poll 1202 (Some True)])
     = [(1202, True)]
   \<and> CalWorker_run (\<lambda>bs. 4) (\<lambda>reg order s. (Some 2, s)) ''CAL'' (the (CAL_TRIG_AN1 1202)) AN1_RANGE_MAP
       [\<lparr>stop_set = False, active = Some True, measured = (\<lambda>tag. Some [0, 0])\<rparr>,
        \<lparr>stop_set = False, active = Some False, measured = (\<lambda>tag. Some [0, 0])\<rparr>] ()
     = ([(''CAL'', ''N2O SPAN'', ''N2O'', 4, Some 2, Some 2, Some 100, ''OUT OF CONTROL'')], Ended, ())
   \<and> lm_started (level_pass 0.5 (\<lambda>a. Some False) (level_pass 0 (\<lambda>a. Some (a = 3)) LevelMonitor)) = [(''LOW'', 0)]
   \<and> level_running 0.5 (''LOW'', 0)
   \<and> level_capture_worker (\<lambda>bs. 4) (\<lambda>reg order s. (Some 2, s)) ''LevelCapture_1'' ''LOW'' ''AN2_EXPECTED''
        (\<lambda>i. Some [0, 0]) ()
      = ([(''LevelCapture_1'', ''Low Level'', ''Val 1'', 4),
          (''LevelCapture_1'', ''Low Level'', ''Val 2'', 4),
          (''LevelCapture_1'', ''Low Level'', ''Val 3'', 4),
          (''LevelCapture_1'', ''Low Level'', ''Avg'', 4),
          (''LevelCapture_1'', ''Low Level'', ''Actual'', 2),
          (''LevelCapture_1'', ''Low Level'', ''Error'', 2),
          (''LevelCapture_1'', ''Low Level'', ''% Error'', 100)], None, ())"
proof -
  have c: "cm_threads (foldl cal_step CalMonitor [Poll 1202 (Some True), Poll 1202 (Some False), Poll 1202 (Some True)])
     = [(1202, True)]"
    by (simp add: CalMonitor_def cal_poll_addr_def is_alive_def)
  have e: "evaluate (\<lambda>reg order s. (Some 2, s)) ''N2O'' 4 ''N2O SPAN'' AN1_RANGE_MAP ()
             = Inr ((Some 2, Some 2, Some 100, ''OUT OF CONTROL''), ())"
    by (simp add: evaluate_def read_expected_min_max_def fetch_if_def AN1_RANGE_MAP_def
          evaluate_tail_def py_div_def)
  have g: "AN1_RANGE_MAP ''N2O'' = Some (0, ''ABCD'', 124, 100, 102, 100)"
    by (simp add: AN1_RANGE_MAP_def)
  have rm: "read_measured (\<lambda>bs. 4) (Some [0, 0]) AN1_RANGE_MAP ''N2O'' = Inr (Some 4)"
    by (simp add: read_measured_def g decode_float_def)
  have ct: "capture_tags (\<lambda>bs. 4) (\<lambda>reg order s. (Some 2, s)) ''CAL'' ''N2O SPAN'' AN1_RANGE_MAP
              \<lparr>stop_set = False, active = Some True, measured = (\<lambda>tag. Some [0, 0])\<rparr> [''N2O''] ()
            = ([(''CAL'', ''N2O SPAN'', ''N2O'', 4, Some 2, Some 2, Some 100, ''OUT OF CONTROL'')], None, ())"
    by (simp add: g rm e)
  have k: "CalWorker_run (\<lambda>bs. 4) (\<lambda>reg order s. (Some 2, s)) ''CAL'' (the (CAL_TRIG_AN1 1202)) AN1_RANGE_MAP
       [\<lparr>stop_set = False, active = Some True, measured = (\<lambda>tag. Some [0, 0])\<rparr>,
        \<lparr>stop_set = False, active = Some False, measured = (\<lambda>tag. Some [0, 0])\<rparr>] ()
     = ([(''CAL'', ''N2O SPAN'', ''N2O'', 4, Some 2, Some 2, Some 100, ''OUT OF CONTROL'')], Ended, ())"
    by (simp add: CAL_TRIG_AN1_def ct del: capture_tags.simps)
  have t: "title ''LOW'' = ''Low''" by code_simp
  have u: "upper ''LOW'' = ''LOW''" by code_simp
  have n: "str_nat (Suc 0) = ''1''" "str_nat (Suc (Suc 0)) = ''2''" "str_nat (Suc (Suc (Suc 0))) = ''3''"
    by code_simp+
  have m: "lm_started (level_pass 0.5 (\<lambda>a. Some False) (level_pass 0 (\<lambda>a. Some (a = 3)) LevelMonitor))
             = [(''LOW'', 0)]"
    by (simp add: level_pass_def level_poll_def LEVEL_DI_def LevelMonitor_def)
  have r: "level_running 0.5 (''LOW'', 0)"
    by (simp add: level_running_def LEVEL_DELAYS_def)
  have w: "level_capture_worker (\<lambda>bs. 4) (\<lambda>reg order s. (Some 2, s)) ''LevelCapture_1'' ''LOW'' ''AN2_EXPECTED''
        (\<lambda>i. Some [0, 0]) ()
      = ([(''LevelCapture_1'', ''Low Level'', ''Val 1'', 4),
          (''LevelCapture_1'', ''Low Level'', ''Val 2'', 4),
          (''LevelCapture_1'', ''Low Level'', ''Val 3'', 4),
          (''LevelCapture_1'', ''Low Level'', ''Avg'', 4),
          (''LevelCapture_1'', ''Low Level'', ''Actual'', 2),
          (''LevelCapture_1'', ''Low Level'', ''Error'', 2),
          (''LevelCapture_1'', ''Low Level'', ''% Error'', 100)], None, ())"
    by (simp add: level_capture_worker_def LEVEL_DELAYS_def read_input_float_def decode_float_def
          py_div_def actual_reference_def AN2_LEVEL_REF_def Let_def t u n)
  show ?thesis using c k m r w by simp
qed

text \<open>
  Claim C3, amended. For every calibration session (\<open>CalWorker\<close>): if the trigger reads false
  or cannot be read when the worker polls it for the first time after the stabilization
  delay (as it does when the trigger went false during the delay and stayed false), or the
  stop event is set by then, the session ends with no sample row put on the queue. A level
  session (\<open>level_capture_worker\<close>) never reads its trigger: it puts one sample row on the
  queue for each of its three reads of the analyzer that succeeds, whatever the trigger
  does.
\<close>

theorem capture_without_trigger:
  "(stop_set p \<or> active p \<noteq> Some True \<longrightarrow>
      CalWorker_run unpack_f fetch tbl info range_map (p # ps) s = ([], Ended, s))
   \<and> (\<exists>more. fst (level_capture_worker unpack_f fetch tbl level_key actual_ref_mode rd s') =
         List.map_filter (\<lambda>i. map_option (\<lambda>v. (tbl, title level_key @ '' Level'', ''Val '' @ str_nat i, v))
                                  (read_input_float unpack_f (rd i) ''ABCD'')) [1, 2, 3] @ more)"
proof
  show "stop_set p \<or> active p \<noteq> Some True \<longrightarrow>
      CalWorker_run unpack_f fetch tbl info range_map (p # ps) s = ([], Ended, s)"
    by auto
next
  let ?vals = "List.map_filter (\<lambda>i. read_input_float unpack_f (rd i) ''ABCD'') [1, 2, 3]"
  let ?rows = "List.map_filter (\<lambda>i. map_option (\<lambda>v. (tbl, title level_key @ '' Level'', ''Val '' @ str_nat i, v))
                                  (read_input_float unpack_f (rd i) ''ABCD'')) [1, 2, 3]"
  have reads: "capture_reads unpack_f tbl (title level_key @ '' Level'') rd 1 LEVEL_DELAYS = (?vals, ?rows)"
    by (rule capture_reads_three)
  show "\<exists>more. fst (level_capture_worker unpack_f fetch tbl level_key actual_ref_mode rd s') = ?rows @ more"
  proof (cases "?vals = []")
    case True
    then show ?thesis
      using reads by (simp add: level_capture_worker_def Let_def)
  next
    case False
    obtain a s2 where ref: "actual_reference fetch level_key actual_ref_mode s' = (a, s2)"
      by (cases "actual_reference fetch level_key actual_ref_mode s'")
    have len: "real (length ?vals) \<noteq> 0" using False by simp
    show ?thesis
      using reads False ref len
      by (simp add: level_capture_worker_def py_div_def Let_def)
  qed
qed

text \<open>
  The theorem on a span calibration of analyzer 1 whose trigger reads false at the first
  poll after the delay (and true again at the next poll, which the worker never makes).
\<close>

theorem capture_without_trigger_witness:
  "CalWorker_run (\<lambda>bs. 4) (\<lambda>reg order s. (Some 2, s)) ''CAL'' (the (CAL_TRIG_AN1 1202)) AN1_RANGE_MAP
     [\<lparr>stop_set = False, active = Some False, measured = (\<lambda>tag. Some [0, 0])\<rparr>,
      \<lparr>stop_set = False, active = Some True, measured = (\<lambda>tag. Some [0, 0])\<rparr>] ()
   = ([], Ended, ())"
  using capture_without_trigger [where p = "\<lparr>stop_set = False, active = Some False, measured = (\<lambda>tag. Some [0, 0])\<rparr>"
      and unpack_f = "(\<lambda>bs. 4)" and fetch = "(\<lambda>reg order s. (Some 2, s))" and tbl = "''CAL''"
      and info = "the (CAL_TRIG_AN1 1202)" and range_map = AN1_RANGE_MAP and s = "()"
      and ps = "[\<lparr>stop_set = False, active = Some True, measured = (\<lambda>tag. Some [0, 0])\<rparr>]"]
  by simp

text \<open>
  Claim C1 fails for level triggers. \<open>LevelMonitor.run\<close> starts a capture thread on every
  rising edge and keeps no record of the threads it started. When the level trigger 3
  reads true, false and true at three passes half a second apart, two capture threads for
  LOW are running at time 1 (each sleeps through 140 seconds of delays).
\<close>

theorem level_monitor_two_sessions:
  "level_sessions 1
     ''LOW''
     (level_pass 1 (\<lambda>a. Some (a = 3))
        (level_pass 0.5 (\<lambda>a. Some False)
           (level_pass 0 (\<lambda>a. Some (a = 3)) LevelMonitor))) = 2"
  by (simp add: level_sessions_def level_running_def LEVEL_DELAYS_def level_pass_def level_poll_def
        LEVEL_DI_def LevelMonitor_def)

text \<open>
  For calibration triggers claim C1 holds: \<open>CalMonitor.run\<close> starts a worker for an address
  only when \<open>workers\<close> holds no live worker for it. Whatever the polls and however the
  worker threads end, at most one worker is alive for each address.
\<close>

lemma filter_at_most_one:
  "(\<forall>i j. i < length xs \<longrightarrow> j < length xs \<longrightarrow> P (xs ! i) \<longrightarrow> P (xs ! j) \<longrightarrow> i = j) \<Longrightarrow>
   length (filter P xs) \<le> 1"
proof (induction xs)
  case Nil
  then show ?case by simp
next
  case (Cons x xs)
  have tl: "\<forall>i j. i < length xs \<longrightarrow> j < length xs \<longrightarrow> P (xs ! i) \<longrightarrow> P (xs ! j) \<longrightarrow> i = j"
  proof (intro allI impI)
    fix i j
    assume "i < length xs" "j < length xs" "P (xs ! i)" "P (xs ! j)"
    then have "Suc i = Suc j"
      using Cons.prems [rule_format, of "Suc i" "Suc j"] by simp
    then show "i = j" by simp
  qed
  show ?case
  proof (cases "P x")
    case False
    then show ?thesis using Cons.IH [OF tl] by simp
  next
    case True
    have "filter P xs = []"
    proof (rule ccontr)
      assume "filter P xs \<noteq> []"
      then obtain y where "y \<in> set xs" "P y"
        by (metis filter_False)
      then obtain j where "j < length xs" "P (xs ! j)"
        by (metis in_set_conv_nth)
      then have "(0 :: nat) = Suc j"
        using Cons.prems [rule_format, of 0 "Suc j"] True by simp
      then show False by simp
    qed
    then show ?thesis using True by simp
  qed
qed

lemma cal_monitor_inv_init: "cal_monitor_inv CalMonitor"
  by (simp add: cal_monitor_inv_def CalMonitor_def)

lemma cal_spawn_inv:
  assumes inv: "cal_monitor_inv m"
    and free: "\<forall>w. cm_workers m addr = Some w \<longrightarrow> \<not> is_alive m w"
  shows "cal_monitor_inv
           (m\<lparr>cm_workers := (cm_workers m)(addr \<mapsto> length (cm_threads m)),
              cm_threads := cm_threads m @ [(addr, True)], cm_last := l\<rparr>)"
  unfolding cal_monitor_inv_def
proof (intro allI impI)
  let ?m = "m\<lparr>cm_workers := (cm_workers m)(addr \<mapsto> length (cm_threads m)),
              cm_threads := cm_threads m @ [(addr, True)], cm_last := l\<rparr>"
  fix w
  assume w: "w < length (cm_threads ?m)" and alive: "snd (cm_threads ?m ! w)"
  show "cm_workers ?m (fst (cm_threads ?m ! w)) = Some w"
  proof (cases "w < length (cm_threads m)")
    case False
    then have "w = length (cm_threads m)" using w by simp
    then show ?thesis by simp
  next
    case True
    then have old: "cm_workers m (fst (cm_threads m ! w)) = Some w" "snd (cm_threads m ! w)"
      using inv alive by (simp_all add: cal_monitor_inv_def nth_append)
    have "fst (cm_threads m ! w) \<noteq> addr"
      using old free True by (auto simp add: is_alive_def)
    then show ?thesis
      using old True by (simp add: nth_append)
  qed
qed

lemma cal_poll_addr_inv:
  assumes inv: "cal_monitor_inv m"
  shows "cal_monitor_inv (cal_poll_addr addr st m)"
proof (cases st)
  case None
  then show ?thesis using inv by (simp add: cal_poll_addr_def)
next
  case (Some b)
  have keep: "cal_monitor_inv (m\<lparr>cm_last := l\<rparr>)" for l
    using inv by (simp add: cal_monitor_inv_def)
  show ?thesis
  proof (cases "b \<and> \<not> cm_last m addr \<and> (\<forall>w. cm_workers m addr = Some w \<longrightarrow> \<not> is_alive m w)")
    case True
    then have "cal_poll_addr addr st m =
                 m\<lparr>cm_workers := (cm_workers m)(addr \<mapsto> length (cm_threads m)),
                   cm_threads := cm_threads m @ [(addr, True)], cm_last := (cm_last m)(addr := b)\<rparr>"
      using Some by (auto simp add: cal_poll_addr_def Let_def split: option.splits)
    then show ?thesis
      using cal_spawn_inv [OF inv, of addr] True by simp
  next
    case False
    then have "cal_poll_addr addr st m = m\<lparr>cm_last := (cm_last m)(addr := b)\<rparr>"
      using Some by (auto simp add: cal_poll_addr_def Let_def split: option.splits)
    then show ?thesis using keep by simp
  qed
qed

lemma cal_exit_inv:
  assumes inv: "cal_monitor_inv m"
  shows "cal_monitor_inv (cal_exit w m)"
  using inv
  by (auto simp add: cal_monitor_inv_def cal_exit_def nth_list_update)

lemma cal_step_inv: "cal_monitor_inv m \<Longrightarrow> cal_monitor_inv (cal_step m ev)"
  by (cases ev) (simp_all add: cal_poll_addr_inv cal_exit_inv)

lemma cal_run_inv: "cal_monitor_inv m \<Longrightarrow> cal_monitor_inv (foldl cal_step m evs)"
  by (induction evs arbitrary: m) (simp_all add: cal_step_inv)

theorem cal_monitor_one_session:
  "cal_sessions addr (foldl cal_step CalMonitor evs) \<le> 1"
proof -
  let ?m = "foldl cal_step CalMonitor evs"
  have inv: "cal_monitor_inv ?m"
    using cal_run_inv [OF cal_monitor_inv_init] .
  show ?thesis
    unfolding cal_sessions_def
  proof (rule filter_at_most_one, intro allI impI)
    fix i j
    assume "i < length (cm_threads ?m)" "j < length (cm_threads ?m)"
      and "fst (cm_threads ?m ! i) = addr \<and> snd (cm_threads ?m ! i)"
      and "fst (cm_threads ?m ! j) = addr \<and> snd (cm_threads ?m ! j)"
    then have "cm_workers ?m addr = Some i" "cm_workers ?m addr = Some j"
      using inv by (auto simp add: cal_monitor_inv_def)
    then show "i = j" by simp
  qed
qed

end
